theory Spec2Isabelle
  imports Main
begin

text \<open>
  A model of \<open>AmplifierChatProvider\<close> (\<open>src-extension/provider.ts\<close>): the output sanitizer,
  the decoder of the worker's newline-delimited JSON, the single pending-call slot with
  its timers and cancellation, and the way a chat request picks its prompt. The provider
  is event driven; each handler and each callback of the source is a function from the
  provider's state to its next state.
\<close>

section \<open>JavaScript strings\<close>

text \<open>
  A JavaScript string is a sequence of UTF-16 code units. The provider compares, splits and
  trims strings by code unit, so a string is modelled as the list of its code units.
  ASCII literals of the source are written through \<open>ascii\<close>; the three non-ASCII literals
  of \<open>cleanAmplifierOutput\<close> are written out as code units.
\<close>

type_synonym jsstring = "nat list"

definition ascii :: "string \<Rightarrow> jsstring" where
  "ascii s = map of_char s"

definition LF :: nat where
  "LF = 10"

text \<open>
  \<open>String.prototype.trim\<close> and the regular expression class \<open>\s\<close> use the same set:
  ECMAScript WhiteSpace (TAB, VT, FF, SP, NBSP, ZWNBSP and the Unicode space separators)
  together with LineTerminator (LF, CR, LS, PS).
\<close>

definition is_space :: "nat \<Rightarrow> bool" where
  "is_space c \<longleftrightarrow>
     c = 9 \<or> c = 10 \<or> c = 11 \<or> c = 12 \<or> c = 13 \<or> c = 32 \<or> c = 160 \<or> c = 5760 \<or>
     (8192 \<le> c \<and> c \<le> 8202) \<or> c = 8232 \<or> c = 8233 \<or> c = 8239 \<or> c = 8287 \<or>
     c = 12288 \<or> c = 65279"

definition trim :: "jsstring \<Rightarrow> jsstring" where
  "trim s = rev (dropWhile is_space (rev (dropWhile is_space s)))"

text \<open>\<open>s.split('\n')\<close>: the segments between line feeds; never the empty array.\<close>

fun split_nl :: "jsstring \<Rightarrow> jsstring list" where
  "split_nl [] = [[]]"
| "split_nl (c # cs) =
     (if c = LF then [] # split_nl cs
      else (case split_nl cs of [] \<Rightarrow> [[c]] | l # ls \<Rightarrow> (c # l) # ls))"

text \<open>\<open>lines.join('\n')\<close>.\<close>

fun join_nl :: "jsstring list \<Rightarrow> jsstring" where
  "join_nl [] = []"
| "join_nl [l] = l"
| "join_nl (l # ls) = l @ LF # join_nl ls"

text \<open>\<open>s.startsWith(p)\<close> and \<open>s.includes(p)\<close>.\<close>

fun starts_with :: "jsstring \<Rightarrow> jsstring \<Rightarrow> bool" where
  "starts_with s [] = True"
| "starts_with [] (p # ps) = False"
| "starts_with (c # cs) (p # ps) = (c = p \<and> starts_with cs ps)"

fun js_includes :: "jsstring \<Rightarrow> jsstring \<Rightarrow> bool" where
  "js_includes [] p = (p = [])"
| "js_includes (c # cs) p = (starts_with (c # cs) p \<or> js_includes cs p)"

section \<open>Output sanitizer: \<open>cleanAmplifierOutput\<close>\<close>

text \<open>
  \<open>text.replace(/\x1b\[[0-9;]*m/g, '')\<close>. At an ESC followed by \<open>[\<close> the greedy run of
  digits and semicolons is skipped; the sequence is removed when an \<open>m\<close> follows the run
  (a shorter run can never be followed by \<open>m\<close>, so backtracking finds nothing else),
  and scanning resumes behind it. Everywhere else the code unit is kept.
\<close>

definition is_sgr_param :: "nat \<Rightarrow> bool" where
  "is_sgr_param c \<longleftrightarrow> (48 \<le> c \<and> c \<le> 57) \<or> c = 59"

function strip_ansi :: "jsstring \<Rightarrow> jsstring" where
  "strip_ansi [] = []"
| "strip_ansi (c # cs) =
     (if c = 27 \<and> starts_with cs [91] \<and> starts_with (dropWhile is_sgr_param (tl cs)) [109]
      then strip_ansi (tl (dropWhile is_sgr_param (tl cs)))
      else c # strip_ansi cs)"
  by pat_completeness auto
termination
proof (relation "measure length")
  show "wf (measure length)" by simp
next
  fix c :: nat and cs :: jsstring
  have "length (tl (dropWhile is_sgr_param (tl cs))) \<le> length cs"
    using length_dropWhile_le [of is_sgr_param "tl cs"] by simp
  then show "(tl (dropWhile is_sgr_param (tl cs)), c # cs) \<in> measure length"
    by simp
next
  fix c :: nat and cs :: jsstring
  show "(cs, c # cs) \<in> measure length" by simp
qed

text \<open>The line filter of \<open>cleanAmplifierOutput\<close>, on the trimmed line.\<close>

definition box_or_space :: "nat \<Rightarrow> bool" where
  "box_or_space c \<longleftrightarrow> c = 9474 \<or> c = 9492 \<or> c = 9472 \<or> is_space c"

definition is_metadata :: "jsstring \<Rightarrow> bool" where
  "is_metadata trimmed \<longleftrightarrow>
     js_includes trimmed (ascii ''Preparing bundle'') \<or>
     js_includes trimmed (ascii ''prepared successfully'') \<or>
     js_includes trimmed (ascii ''Session ID:'') \<or>
     (js_includes trimmed (ascii ''Bundle:'') \<and> js_includes trimmed (ascii ''Provider:'')) \<or>
     js_includes trimmed ([55358, 56800] @ ascii '' Thinking'') \<or>
     trimmed = replicate 60 61 \<or>
     trimmed = replicate 60 45 \<or>
     trimmed = ascii ''Thinking:'' \<or>
     js_includes trimmed (ascii ''Token Usage'') \<or>
     js_includes trimmed [55357, 56522] \<or>
     (trimmed \<noteq> [] \<and> list_all box_or_space trimmed)"

definition keep_line :: "jsstring \<Rightarrow> bool" where
  "keep_line line =
     (let trimmed = trim line in
      if trimmed = [] then False
      else if is_metadata trimmed then False
      else True)"

text \<open>
  \<open>cleaned.replace(/\n{3,}/g, '\n\n')\<close>: a maximal run of three or more line feeds becomes
  two; a run of one or two is kept (no match starts inside it).
\<close>

function collapse_newlines :: "jsstring \<Rightarrow> jsstring" where
  "collapse_newlines [] = []"
| "collapse_newlines (c # cs) =
     (if c = LF then
        (if 2 \<le> length (takeWhile (\<lambda>x. x = LF) cs)
         then [LF, LF] @ collapse_newlines (dropWhile (\<lambda>x. x = LF) cs)
         else c # takeWhile (\<lambda>x. x = LF) cs @ collapse_newlines (dropWhile (\<lambda>x. x = LF) cs))
      else c # collapse_newlines cs)"
  by pat_completeness auto
termination
proof (relation "measure length")
  show "wf (measure length)" by simp
next
  fix c :: nat and cs :: jsstring
  show "(dropWhile (\<lambda>x. x = LF) cs, c # cs) \<in> measure length"
    using length_dropWhile_le [of "\<lambda>x. x = LF" cs] by simp
next
  fix c :: nat and cs :: jsstring
  show "(dropWhile (\<lambda>x. x = LF) cs, c # cs) \<in> measure length"
    using length_dropWhile_le [of "\<lambda>x. x = LF" cs] by simp
next
  fix c :: nat and cs :: jsstring
  show "(cs, c # cs) \<in> measure length" by simp
qed

definition cleanAmplifierOutput :: "jsstring \<Rightarrow> jsstring" where
  "cleanAmplifierOutput text =
     (let cleaned = strip_ansi text;
          lines = split_nl cleaned;
          filtered = filter keep_line lines;
          cleaned = join_nl filtered
      in collapse_newlines cleaned)"

section \<open>Decoded messages\<close>

text \<open>
  The value \<open>JSON.parse\<close> returns. A number is kept as its JSON text: the provider never
  reads one. An object lists its own properties, one entry per key.
\<close>

datatype json =
    JNull
  | JBool bool
  | JNumber jsstring
  | JString jsstring
  | JArray "json list"
  | JObject "(jsstring \<times> json) list"

datatype exn = SyntaxError | TypeError

text \<open>
  \<open>response.key\<close>: reading a property of \<open>null\<close> throws a TypeError; on an object the
  result is the property or \<open>undefined\<close> (\<open>None\<close>); on any other value the four keys the
  provider reads (\<open>type\<close>, \<open>status\<close>, \<open>content\<close>, \<open>error\<close>) are \<open>undefined\<close>.
\<close>

fun get_prop :: "json \<Rightarrow> jsstring \<Rightarrow> exn + json option" where
  "get_prop JNull k = Inl TypeError"
| "get_prop (JObject kvs) k = Inr (map_of kvs k)"
| "get_prop (JBool b) k = Inr None"
| "get_prop (JNumber n) k = Inr None"
| "get_prop (JString t) k = Inr None"
| "get_prop (JArray vs) k = Inr None"

section \<open>The provider's state\<close>

text \<open>
  The errors the two promises are rejected with, and the one thrown by
  \<open>provideLanguageModelChatResponse\<close>, by their message:
  \<^item> \<open>InitTimeout\<close>: 'Bridge initialization timeout - try again or check connection'
  \<^item> \<open>ExecTimeout\<close>: 'Bridge execution timeout'
  \<^item> \<open>Cancelled\<close>: 'Request cancelled by user'
  \<^item> \<open>StdinUnavailable\<close>: 'Bridge stdin not available'
  \<^item> \<open>UnexpectedInit\<close>: 'Unexpected initialization response'
  \<^item> \<open>FailedToStart\<close>: 'Failed to start bridge process'
  \<^item> \<open>WorkerError v\<close>: \<open>new Error(response.error)\<close>, with \<open>v\<close> the value of \<open>response.error\<close>.
\<close>

datatype failure =
    InitTimeout
  | ExecTimeout
  | Cancelled
  | StdinUnavailable
  | UnexpectedInit
  | FailedToStart
  | WorkerError "json option"

datatype outcome = Pending | Resolved | Rejected failure

datatype call_kind = InitializeCall | ExecuteCall

text \<open>
  One record per promise created by \<open>initializeBridge\<close> or \<open>executeOnBridge\<close>, holding the
  promise's state and the variables its closures share: the timer made by \<open>setTimeout\<close>
  (\<open>timer_armed\<close> until it fires or \<open>clearTimeout\<close> is called), and for an execute call
  \<open>hasReceivedResponse\<close> and the \<open>progress\<close> object it reports to (named by a number).
\<close>

record call =
  kind :: call_kind
  outcome :: outcome
  timer_armed :: bool
  hasReceivedResponse :: bool
  progress :: nat

text \<open>The callbacks stored in \<open>pendingResponses\<close>: closures over the call they belong to.\<close>

datatype resolver = InitResolver nat | ExecResolver nat

text \<open>The spawned process, as far as the provider looks at it: whether \<open>proc.stdin\<close> exists.\<close>

datatype child_process = ChildProcess (has_stdin: bool)

text \<open>
  The object each command is made from by \<open>JSON.stringify(...) + '\n'\<close>. The two path
  fields of \<open>initialize\<close> are left out.
\<close>

datatype command = InitializeCommand | ExecuteCommand (prompt: jsstring) | ShutdownCommand

text \<open>What \<open>console.log\<close> and \<open>console.error\<close> receive in \<open>handleBridgeResponse\<close>.\<close>

datatype log_entry =
    BridgeResponse json
  | BridgeParseError exn jsstring

text \<open>
  The text parts handed to \<open>progress.report\<close>: the sanitized chunk of a response, and the
  fixed notices of \<open>provideLanguageModelChatResponse\<close> (no workspace folder, no prompt,
  initializing, and the error message of a caught failure).
\<close>

datatype report =
    Chunk jsstring
  | NoWorkspaceNotice
  | NoPromptNotice
  | InitializingNotice
  | ErrorNotice failure

text \<open>
  The fields of \<open>AmplifierChatProvider\<close>, then what the provider does to its surroundings:
  the promises it created, the console, the reports (with the progress object they went
  to) and the commands written to the worker's stdin. \<open>resolver_calls\<close> is an observation
  only: it records every invocation of a stored callback with its argument.
  \<open>has_context\<close> tells whether \<open>context\<close> is set; \<open>pythonPath\<close>, read only to build the
  arguments of \<open>spawn\<close> and the two paths of the initialize command, is left out.
\<close>

record provider =
  bridgeProcess :: "child_process option"
  isInitialized :: bool
  pendingResponses :: "string \<rightharpoonup> resolver"
  responseBuffer :: jsstring
  has_context :: bool
  calls :: "call list"
  console :: "log_entry list"
  reported :: "(nat \<times> report) list"
  stdin_written :: "command list"
  resolver_calls :: "(resolver \<times> json) list"

text \<open>The provider as \<open>activate\<close> leaves it: the field initializers, and \<open>context\<close> set.\<close>

definition new_provider :: provider where
  "new_provider =
     \<lparr>bridgeProcess = None, isInitialized = False, pendingResponses = Map.empty,
      responseBuffer = [], has_context = True, calls = [], console = [], reported = [],
      stdin_written = [], resolver_calls = []\<rparr>"

definition call_outcome :: "provider \<Rightarrow> nat \<Rightarrow> outcome option" where
  "call_outcome s c = (if c < length (calls s) then Some (outcome (calls s ! c)) else None)"

definition update_call :: "nat \<Rightarrow> (call \<Rightarrow> call) \<Rightarrow> provider \<Rightarrow> provider" where
  "update_call c f s =
     (if c < length (calls s) then s\<lparr>calls := (calls s)[c := f (calls s ! c)]\<rparr> else s)"

text \<open>\<open>resolve()\<close> and \<open>reject(e)\<close>: only a pending promise changes.\<close>

definition settle :: "nat \<Rightarrow> outcome \<Rightarrow> provider \<Rightarrow> provider" where
  "settle c r s =
     update_call c (\<lambda>k. if outcome k = Pending then k\<lparr>outcome := r\<rparr> else k) s"

definition clearTimeout :: "nat \<Rightarrow> provider \<Rightarrow> provider" where
  "clearTimeout c s = update_call c (\<lambda>k. k\<lparr>timer_armed := False\<rparr>) s"

definition delete_current :: "provider \<Rightarrow> provider" where
  "delete_current s = s\<lparr>pendingResponses := (pendingResponses s)(''current'' := None)\<rparr>"

definition set_current :: "resolver \<Rightarrow> provider \<Rightarrow> provider" where
  "set_current r s = s\<lparr>pendingResponses := (pendingResponses s)(''current'' \<mapsto> r)\<rparr>"

definition report_to :: "nat \<Rightarrow> report \<Rightarrow> provider \<Rightarrow> provider" where
  "report_to p r s = s\<lparr>reported := reported s @ [(p, r)]\<rparr>"

definition write_stdin :: "command \<Rightarrow> provider \<Rightarrow> provider" where
  "write_stdin cmd s = s\<lparr>stdin_written := stdin_written s @ [cmd]\<rparr>"

definition stdin_ready :: "provider \<Rightarrow> bool" where
  "stdin_ready s = (case bridgeProcess s of None \<Rightarrow> False | Some p \<Rightarrow> has_stdin p)"

section \<open>Process supervisor\<close>

text \<open>
  \<open>ensureBridgeProcess\<close>: nothing happens when a process is held or the extension context
  is missing; otherwise the process returned by \<open>spawn\<close> (the argument \<open>proc\<close>) is stored.
\<close>

definition ensureBridgeProcess :: "child_process \<Rightarrow> provider \<Rightarrow> provider" where
  "ensureBridgeProcess proc s =
     (if bridgeProcess s \<noteq> None then s
      else if \<not> has_context s then s
      else s\<lparr>bridgeProcess := Some proc\<rparr>)"

text \<open>The handler of the process's \<open>close\<close> event.\<close>

definition on_close :: "provider \<Rightarrow> provider" where
  "on_close s = s\<lparr>bridgeProcess := None, isInitialized := False\<rparr>"

section \<open>The stored callbacks\<close>

text \<open>
  Each callback returns the new state, or the exception it threw together with the state
  reached by then (the assignments made before the throw stay).
\<close>

definition init_resolver :: "nat \<Rightarrow> json \<Rightarrow> provider \<Rightarrow> (exn \<times> provider) + provider" where
  "init_resolver c response s =
     (let s1 = delete_current (clearTimeout c s) in
      case get_prop response (ascii ''status'') of
        Inl e \<Rightarrow> Inl (e, s1)
      | Inr status \<Rightarrow>
          if status = Some (JString (ascii ''initialized''))
          then Inr (settle c Resolved (s1\<lparr>isInitialized := True\<rparr>))
          else if status = Some (JString (ascii ''error''))
          then (case get_prop response (ascii ''error'') of
                  Inl e \<Rightarrow> Inl (e, s1)
                | Inr v \<Rightarrow> Inr (settle c (Rejected (WorkerError v)) s1))
          else Inr (settle c (Rejected UnexpectedInit) s1))"

text \<open>
  \<open>cleanAmplifierOutput(response.content)\<close> calls \<open>text.replace\<close>: a content that is not a
  string (or is missing) throws a TypeError, after \<open>hasReceivedResponse\<close> was set.
\<close>

definition exec_resolver :: "nat \<Rightarrow> json \<Rightarrow> provider \<Rightarrow> (exn \<times> provider) + provider" where
  "exec_resolver c response s =
     (case get_prop response (ascii ''type'') of
        Inl e \<Rightarrow> Inl (e, s)
      | Inr ty \<Rightarrow>
          if ty = Some (JString (ascii ''response'')) then
            (let s1 = update_call c (\<lambda>k. k\<lparr>hasReceivedResponse := True\<rparr>) s in
             case get_prop response (ascii ''content'') of
               Inr (Some (JString content)) \<Rightarrow>
                 (let cleaned = cleanAmplifierOutput content in
                  if trim cleaned \<noteq> []
                  then Inr (report_to (progress (calls s1 ! c)) (Chunk cleaned) s1)
                  else Inr s1)
             | _ \<Rightarrow> Inl (TypeError, s1))
          else if ty = Some (JString (ascii ''error'')) then
            (case get_prop response (ascii ''error'') of
               Inl e \<Rightarrow> Inl (e, s)
             | Inr v \<Rightarrow> Inr (settle c (Rejected (WorkerError v)) (delete_current (clearTimeout c s))))
          else if ty = Some (JString (ascii ''done'')) then
            Inr (settle c Resolved (delete_current (clearTimeout c s)))
          else Inr s)"

fun call_resolver :: "resolver \<Rightarrow> json \<Rightarrow> provider \<Rightarrow> (exn \<times> provider) + provider" where
  "call_resolver (InitResolver c) response s =
     init_resolver c response (s\<lparr>resolver_calls := resolver_calls s @ [(InitResolver c, response)]\<rparr>)"
| "call_resolver (ExecResolver c) response s =
     exec_resolver c response (s\<lparr>resolver_calls := resolver_calls s @ [(ExecResolver c, response)]\<rparr>)"

section \<open>Wire codec and routing: \<open>handleBridgeResponse\<close>\<close>

text \<open>
  Two functions of the platform are parameters: \<open>D\<close> is \<open>Buffer.prototype.toString\<close>
  (UTF-8 decoding of one chunk of bytes) and \<open>P\<close> is \<open>JSON.parse\<close>, \<open>None\<close> when it throws
  a SyntaxError.

  The loop body is split as the source is: the lookup and call of the stored callback
  (\<open>route\<close>), the \<open>try\<close> block around \<open>JSON.parse\<close> and it, and the \<open>catch\<close> clause.
\<close>

definition route :: "json \<Rightarrow> provider \<Rightarrow> (exn \<times> provider) + provider" where
  "route response s =
     (let s1 = s\<lparr>console := console s @ [BridgeResponse response]\<rparr> in
      case pendingResponses s1 ''current'' of
        None \<Rightarrow> Inr s1
      | Some resolver \<Rightarrow> call_resolver resolver response s1)"

definition try_block :: "(jsstring \<Rightarrow> json option) \<Rightarrow> jsstring \<Rightarrow> provider \<Rightarrow> (exn \<times> provider) + provider" where
  "try_block P line s =
     (case P line of
        None \<Rightarrow> Inl (SyntaxError, s)
      | Some response \<Rightarrow> route response s)"

definition catch_block :: "jsstring \<Rightarrow> (exn \<times> provider) + provider \<Rightarrow> provider" where
  "catch_block line r =
     (case r of
        Inr s' \<Rightarrow> s'
      | Inl (e, s') \<Rightarrow> s'\<lparr>console := console s' @ [BridgeParseError e line]\<rparr>)"

definition process_line :: "(jsstring \<Rightarrow> json option) \<Rightarrow> jsstring \<Rightarrow> provider \<Rightarrow> provider" where
  "process_line P line s =
     (if trim line = [] then s else catch_block line (try_block P line s))"

definition handleBridgeResponse ::
  "('byte list \<Rightarrow> jsstring) \<Rightarrow> (jsstring \<Rightarrow> json option) \<Rightarrow> 'byte list \<Rightarrow> provider \<Rightarrow> provider" where
  "handleBridgeResponse D P data s =
     (let text = D data;
          buffer = responseBuffer s @ text;
          lines = split_nl buffer;
          s1 = s\<lparr>responseBuffer := (if lines = [] then [] else last lines)\<rparr>
      in fold (process_line P) (butlast lines) s1)"

section \<open>Bridge facade\<close>

text \<open>
  \<open>initializeBridge\<close> up to the end of the promise's executor: a new promise with its
  timer, the callback stored under 'current', and the command written, or the promise
  rejected when the process has no stdin. The result names the promise.
\<close>

definition initializeBridge :: "provider \<Rightarrow> nat \<times> provider" where
  "initializeBridge s =
     (let c = length (calls s);
          s1 = s\<lparr>calls := calls s @
                 [\<lparr>kind = InitializeCall, outcome = Pending, timer_armed = True,
                   hasReceivedResponse = False, progress = 0\<rparr>]\<rparr>;
          s2 = set_current (InitResolver c) s1
      in if stdin_ready s2 then (c, write_stdin InitializeCommand s2)
         else (c, settle c (Rejected StdinUnavailable) s2))"

definition executeOnBridge :: "jsstring \<Rightarrow> nat \<Rightarrow> provider \<Rightarrow> nat \<times> provider" where
  "executeOnBridge userPrompt prog s =
     (let c = length (calls s);
          s1 = s\<lparr>calls := calls s @
                 [\<lparr>kind = ExecuteCall, outcome = Pending, timer_armed = True,
                   hasReceivedResponse = False, progress = prog\<rparr>]\<rparr>;
          s2 = set_current (ExecResolver c) s1
      in if stdin_ready s2 then (c, write_stdin (ExecuteCommand userPrompt) s2)
         else (c, settle c (Rejected StdinUnavailable) s2))"

text \<open>The two \<open>setTimeout\<close> callbacks and the cancellation listener of \<open>executeOnBridge\<close>.\<close>

definition init_timeout :: "nat \<Rightarrow> provider \<Rightarrow> provider" where
  "init_timeout c s = settle c (Rejected InitTimeout) s"

definition exec_timeout :: "nat \<Rightarrow> provider \<Rightarrow> provider" where
  "exec_timeout c s =
     (if \<not> hasReceivedResponse (calls s ! c) then settle c (Rejected ExecTimeout) s else s)"

definition on_cancel :: "nat \<Rightarrow> provider \<Rightarrow> provider" where
  "on_cancel c s = settle c (Rejected Cancelled) (delete_current (clearTimeout c s))"

text \<open>
  The timer of call \<open>c\<close> elapses: its callback runs once, unless \<open>clearTimeout\<close> was
  called before.
\<close>

definition timer_elapsed :: "nat \<Rightarrow> provider \<Rightarrow> provider" where
  "timer_elapsed c s =
     (if c < length (calls s) \<and> timer_armed (calls s ! c) then
        (let s1 = update_call c (\<lambda>k. k\<lparr>timer_armed := False\<rparr>) s in
         case kind (calls s ! c) of
           InitializeCall \<Rightarrow> init_timeout c s1
         | ExecuteCall \<Rightarrow> exec_timeout c s1)
      else s)"

text \<open>
  \<open>shutdown\<close>: with a process held, the shutdown command is written when there is a stdin,
  and a timer of one second is started; its callback kills and drops the process and
  clears the initialized flag.
\<close>

definition shutdown :: "provider \<Rightarrow> provider" where
  "shutdown s =
     (if bridgeProcess s \<noteq> None
      then (if stdin_ready s then write_stdin ShutdownCommand s else s)
      else s)"

definition shutdown_elapsed :: "provider \<Rightarrow> provider" where
  "shutdown_elapsed s = s\<lparr>bridgeProcess := None, isInitialized := False\<rparr>"

section \<open>Chat requests\<close>

datatype part = LanguageModelTextPart (text_value: jsstring) | OtherPart nat

type_synonym message = "part list"

definition text_parts :: "message \<Rightarrow> jsstring list" where
  "text_parts content = map text_value (filter is_LanguageModelTextPart content)"

definition messageToString :: "message \<Rightarrow> jsstring" where
  "messageToString content = join_nl (text_parts content)"

definition extractUserPrompt :: "message list \<Rightarrow> jsstring" where
  "extractUserPrompt messages =
     (if messages = [] then [] else messageToString (last messages))"

text \<open>\<open>getWorkspaceRoot\<close>, over the paths of \<open>vscode.workspace.workspaceFolders\<close>.\<close>

definition getWorkspaceRoot :: "jsstring list \<Rightarrow> jsstring option" where
  "getWorkspaceRoot folders = (case folders of [] \<Rightarrow> None | f # _ \<Rightarrow> Some f)"

text \<open>
  \<open>provideLanguageModelChatResponse\<close> is an async function: it runs to its first \<open>await\<close>
  and is resumed when the awaited promise settles (\<open>resume_chat_response\<close>). A \<open>frame\<close>
  keeps what the suspended function holds: the promise awaited and, before the execute
  call, \<open>userPrompt\<close>. The arguments \<open>folders\<close> and \<open>proc\<close> stand for what the function reads
  from its surroundings: the workspace folders and the process \<open>spawn\<close> returns; \<open>prog\<close>
  names the request's progress object.
\<close>

datatype frame =
    Returned
  | AwaitingInitialize nat jsstring
  | AwaitingExecute nat

definition provideLanguageModelChatResponse ::
  "jsstring list \<Rightarrow> message list \<Rightarrow> nat \<Rightarrow> child_process \<Rightarrow> provider \<Rightarrow> frame \<times> provider" where
  "provideLanguageModelChatResponse folders messages prog proc s =
     (case getWorkspaceRoot folders of
        None \<Rightarrow> (Returned, report_to prog NoWorkspaceNotice s)
      | Some workspaceRoot \<Rightarrow>
          if workspaceRoot = [] then (Returned, report_to prog NoWorkspaceNotice s)
          else
            (let userPrompt = extractUserPrompt messages in
             if userPrompt = [] then (Returned, report_to prog NoPromptNotice s)
             else
               (let s1 = ensureBridgeProcess proc s in
                if bridgeProcess s1 = None
                then (Returned, report_to prog (ErrorNotice FailedToStart) s1)
                else if \<not> isInitialized s1 then
                  (let (c, s2) = initializeBridge (report_to prog InitializingNotice s1)
                   in (AwaitingInitialize c userPrompt, s2))
                else
                  (let (c, s2) = executeOnBridge userPrompt prog s1
                   in (AwaitingExecute c, s2)))))"

definition resume_chat_response :: "nat \<Rightarrow> frame \<Rightarrow> provider \<Rightarrow> frame \<times> provider" where
  "resume_chat_response prog fr s =
     (case fr of
        Returned \<Rightarrow> (Returned, s)
      | AwaitingInitialize c userPrompt \<Rightarrow>
          (case call_outcome s c of
             Some Resolved \<Rightarrow>
               (let (c', s1) = executeOnBridge userPrompt prog s in (AwaitingExecute c', s1))
           | Some (Rejected e) \<Rightarrow> (Returned, report_to prog (ErrorNotice e) s)
           | _ \<Rightarrow> (fr, s))
      | AwaitingExecute c \<Rightarrow>
          (case call_outcome s c of
             Some Resolved \<Rightarrow> (Returned, s)
           | Some (Rejected e) \<Rightarrow> (Returned, report_to prog (ErrorNotice e) s)
           | _ \<Rightarrow> (fr, s)))"

section \<open>Vocabulary of the statements\<close>

text \<open>
  The definitions of this section are not code of the provider: they name what the
  theorems below speak about.

  \<open>state_of\<close> is the state a callback or the \<open>try\<close> block leaves behind, thrown or not;
  \<open>with_buffer\<close> replaces the decode buffer in such a result.
\<close>

definition state_of :: "(exn \<times> provider) + provider \<Rightarrow> provider" where
  "state_of r = (case r of Inl (e, s) \<Rightarrow> s | Inr s \<Rightarrow> s)"

definition with_buffer :: "jsstring \<Rightarrow> (exn \<times> provider) + provider \<Rightarrow> (exn \<times> provider) + provider" where
  "with_buffer x r =
     (case r of Inl (e, s) \<Rightarrow> Inl (e, s\<lparr>responseBuffer := x\<rparr>) | Inr s \<Rightarrow> Inr (s\<lparr>responseBuffer := x\<rparr>))"

text \<open>The messages decoded so far: the \<open>[Bridge response]\<close> entries of the console, in order.\<close>

fun decoded_messages :: "log_entry list \<Rightarrow> json list" where
  "decoded_messages [] = []"
| "decoded_messages (BridgeResponse r # es) = r # decoded_messages es"
| "decoded_messages (BridgeParseError e l # es) = decoded_messages es"

text \<open>
  A list of chunks is aligned for the decoder \<open>D\<close> when decoding the chunks one by one
  gives the text of decoding them together: no chunk ends inside a character.
\<close>

fun aligned :: "('byte list \<Rightarrow> jsstring) \<Rightarrow> 'byte list list \<Rightarrow> bool" where
  "aligned D [] = (D [] = [])"
| "aligned D (c # cs) = (D (c @ concat cs) = D c @ D (concat cs) \<and> aligned D cs)"

text \<open>No line of the text, once the control sequences are removed, is a banner line.\<close>

definition no_banner :: "jsstring \<Rightarrow> bool" where
  "no_banner text = list_all (\<lambda>l. \<not> is_metadata (trim l)) (split_nl (strip_ansi text))"

text \<open>A message of type \<open>response\<close>.\<close>

definition is_response :: "json \<Rightarrow> bool" where
  "is_response m \<longleftrightarrow> get_prop m (ascii ''type'') = Inr (Some (JString (ascii ''response'')))"

text \<open>
  A run of the provider, used in the closed examples: the worker is spawned with its
  three pipes, \<open>initializeBridge\<close> creates call 0, the worker answers
  \<open>{"status":"initialized"}\<close>, and \<open>executeOnBridge\<close> creates call 1 for the prompt \<open>hi\<close>
  reporting to progress object 0.
\<close>

definition after_spawn :: provider where
  "after_spawn = ensureBridgeProcess (ChildProcess True) new_provider"

definition init_issued :: provider where
  "init_issued = snd (initializeBridge after_spawn)"

definition initialized_message :: json where
  "initialized_message = JObject [(ascii ''status'', JString (ascii ''initialized''))]"

definition after_init :: provider where
  "after_init = state_of (route initialized_message init_issued)"

definition exec_issued :: provider where
  "exec_issued = snd (executeOnBridge (ascii ''hi'') 0 after_init)"

text \<open>The decoded form of \<open>{"type":"response","content":"Hello"}\<close>.\<close>

definition hello_message :: json where
  "hello_message =
     JObject [(ascii ''type'', JString (ascii ''response'')),
              (ascii ''content'', JString (ascii ''Hello''))]"

text \<open>The lines \<open>{"type":"response","content":"Hello"}\<close> and \<open>{"type":"response","content":"\<close>...\<open>"}\<close>.\<close>

definition hello_line :: jsstring where
  \<open>hello_line = ascii ''{"type":"response","content":"Hello"}''\<close>

definition line_start :: jsstring where
  \<open>line_start = ascii ''{"type":"response","content":"''\<close>

definition line_end :: jsstring where
  \<open>line_end = ascii ''"}''\<close>

definition response_message :: "jsstring \<Rightarrow> json" where
  "response_message content =
     JObject [(ascii ''type'', JString (ascii ''response'')), (ascii ''content'', JString content)]"

text \<open>
  Instances of the two platform functions for the closed examples. \<open>utf8_short\<close> decodes
  UTF-8 sequences of one and two bytes and puts U+FFFD for any other byte, which is what
  \<open>Buffer.prototype.toString\<close> gives on the byte strings used below (a lead byte with
  nothing behind it and a continuation byte alone each become U+FFFD). \<open>sample_parse\<close>
  is \<open>JSON.parse\<close> on three lines, with its result on each; every other line used below
  is not JSON.
\<close>

fun utf8_short :: "nat list \<Rightarrow> jsstring" where
  "utf8_short [] = []"
| "utf8_short [b] = (if b < 128 then [b] else [65533])"
| "utf8_short (b # c # bs) =
     (if b < 128 then b # utf8_short (c # bs)
      else if 194 \<le> b \<and> b < 224 \<and> 128 \<le> c \<and> c < 192
      then ((b - 192) * 64 + (c - 128)) # utf8_short bs
      else 65533 # utf8_short (c # bs))"

definition sample_parse :: "jsstring \<Rightarrow> json option" where
  "sample_parse l =
     (if l = hello_line then Some hello_message
      else if l = line_start @ [233] @ line_end then Some (response_message [233])
      else if l = line_start @ [65533, 65533] @ line_end then Some (response_message [65533, 65533])
      else None)"

text \<open>
  An execute call in flight: its promise is pending, its timer is running and its
  callback is the one stored under 'current'.
\<close>

definition in_flight :: "nat \<Rightarrow> provider \<Rightarrow> bool" where
  "in_flight c s \<longleftrightarrow>
     c < length (calls s) \<and> kind (calls s ! c) = ExecuteCall \<and> outcome (calls s ! c) = Pending \<and>
     timer_armed (calls s ! c) \<and> pendingResponses s ''current'' = Some (ExecResolver c)"

text \<open>
  A terminal message: one of type \<open>error\<close> or \<open>done\<close>. The messages one line hands on
  (none for a blank line or a line \<open>JSON.parse\<close> rejects), and the messages decoded
  between a state and a later one.
\<close>

definition is_terminal :: "json \<Rightarrow> bool" where
  "is_terminal m \<longleftrightarrow>
     get_prop m (ascii ''type'') = Inr (Some (JString (ascii ''error''))) \<or>
     get_prop m (ascii ''type'') = Inr (Some (JString (ascii ''done'')))"

definition line_messages :: "(jsstring \<Rightarrow> json option) \<Rightarrow> jsstring \<Rightarrow> json list" where
  "line_messages P l =
     (if trim l = [] then [] else (case P l of None \<Rightarrow> [] | Some r \<Rightarrow> [r]))"

definition received :: "provider \<Rightarrow> provider \<Rightarrow> json list" where
  "received s s' = drop (length (decoded_messages (console s))) (decoded_messages (console s'))"

text \<open>
  The text holds a match of \<open>/\x1b\[[0-9;]*m/\<close>: an SGR (colour) sequence, which is ESC,
  \<open>[\<close>, digits and semicolons, and a final \<open>m\<close>.
\<close>

fun has_sgr :: "jsstring \<Rightarrow> bool" where
  "has_sgr [] = False"
| "has_sgr (c # cs) =
     ((c = 27 \<and> starts_with cs [91] \<and> starts_with (dropWhile is_sgr_param (tl cs)) [109]) \<or>
      has_sgr cs)"

text \<open>
  The example run continued: the token of call 1 is cancelled, and a second request
  (progress object 1) issues call 2 for the prompt \<open>again\<close>. \<open>hello_head\<close> and
  \<open>hello_tail\<close> are the two parts of \<open>hello_line\<close> cut inside the word \<open>response\<close>.
\<close>

definition cancelled :: provider where
  "cancelled = on_cancel 1 exec_issued"

definition second_issued :: provider where
  "second_issued = snd (executeOnBridge (ascii ''again'') 1 cancelled)"

definition hello_head :: jsstring where
  \<open>hello_head = ascii ''{"type":"resp''\<close>

definition hello_tail :: jsstring where
  \<open>hello_tail = ascii ''onse","content":"Hello"}''\<close>

section \<open>Lines of a text\<close>

lemma split_nl_not_Nil [simp]: "split_nl s \<noteq> []"
  by (induction s) (auto split: list.splits)

lemma split_nl_no_LF: "l \<in> set (split_nl s) \<Longrightarrow> LF \<notin> set l"
proof (induction s arbitrary: l)
  case Nil
  then show ?case by simp
next
  case (Cons c cs)
  show ?case
  proof (cases "c = LF")
    case True
    with Cons show ?thesis by auto
  next
    case False
    obtain h t where ht: "split_nl cs = h # t"
      by (cases "split_nl cs") auto
    with Cons False show ?thesis by auto
  qed
qed

lemma split_nl_free: "LF \<notin> set l \<Longrightarrow> split_nl l = [l]"
  by (induction l) auto

lemma split_nl_append_free:
  "LF \<notin> set l \<Longrightarrow> split_nl (l @ s) = (l @ hd (split_nl s)) # tl (split_nl s)"
  by (induction l) (auto split: list.splits)

lemma split_nl_line: "LF \<notin> set l \<Longrightarrow> split_nl (l @ LF # s) = l # split_nl s"
  by (induction l) auto

lemma split_nl_append:
  "split_nl (a @ b) = butlast (split_nl a) @ (last (split_nl a) @ hd (split_nl b)) # tl (split_nl b)"
proof (induction a)
  case Nil
  then show ?case by (cases "split_nl b") auto
next
  case (Cons c cs)
  show ?case
  proof (cases "c = LF")
    case True
    with Cons show ?thesis by simp
  next
    case False
    obtain h t where ht: "split_nl cs = h # t"
      by (cases "split_nl cs") auto
    show ?thesis
    proof (cases t)
      case Nil
      with Cons False ht show ?thesis by simp
    next
      case (Cons t1 ts)
      with Cons.IH False ht show ?thesis by simp
    qed
  qed
qed

lemma join_split_nl: "join_nl (split_nl s) = s"
proof (induction s)
  case Nil
  then show ?case by simp
next
  case (Cons c cs)
  obtain h t where ht: "split_nl cs = h # t"
    by (cases "split_nl cs") auto
  show ?case
  proof (cases "c = LF")
    case True
    with Cons ht show ?thesis by simp
  next
    case False
    with Cons ht show ?thesis by (cases t) auto
  qed
qed

lemma split_join_nl:
  "ls \<noteq> [] \<Longrightarrow> \<forall>l\<in>set ls. LF \<notin> set l \<Longrightarrow> split_nl (join_nl ls) = ls"
proof (induction ls rule: join_nl.induct)
  case 1
  then show ?case by simp
next
  case (2 l)
  then show ?case by (simp add: split_nl_free)
next
  case (3 l v va)
  then show ?case by (simp add: split_nl_line)
qed

section \<open>Properties of the sanitizer\<close>

lemma keep_line_nonblank: "keep_line l \<Longrightarrow> trim l \<noteq> []"
  by (auto simp: keep_line_def Let_def split: if_splits)

lemma trim_Nil [simp]: "trim [] = []"
  by (simp add: trim_def)

lemma starts_with_LF_LF [simp]:
  "starts_with s [LF, LF] \<longleftrightarrow> (\<exists>r. s = LF # LF # r)"
  by (cases s; cases "tl s") auto

lemma includes_free_prefix:
  "LF \<notin> set l \<Longrightarrow> js_includes (l @ LF # r) [LF, LF] \<longleftrightarrow> js_includes (LF # r) [LF, LF]"
  by (induction l) auto

lemma includes_free: "LF \<notin> set l \<Longrightarrow> \<not> js_includes l [LF, LF]"
  by (induction l) auto

lemma join_nl_hd:
  "ls \<noteq> [] \<Longrightarrow> hd ls \<noteq> [] \<Longrightarrow> join_nl ls \<noteq> [] \<and> hd (join_nl ls) = hd (hd ls)"
  by (induction ls rule: join_nl.induct) auto

lemma join_nl_no_double:
  "\<forall>l\<in>set ls. LF \<notin> set l \<and> l \<noteq> [] \<Longrightarrow> \<not> js_includes (join_nl ls) [LF, LF]"
proof (induction ls rule: join_nl.induct)
  case 1
  then show ?case by simp
next
  case (2 l)
  then show ?case by (simp add: includes_free)
next
  case (3 l v va)
  have hdv: "join_nl (v # va) \<noteq> [] \<and> hd (join_nl (v # va)) = hd v"
    using join_nl_hd [of "v # va"] 3 by simp
  have "hd v \<noteq> LF" using 3 by (cases v) auto
  with hdv have "\<not> (\<exists>r. join_nl (v # va) = LF # r)" by auto
  moreover have "\<not> js_includes (join_nl (v # va)) [LF, LF]" using 3 by simp
  ultimately show ?case using 3 by (simp add: includes_free_prefix)
qed

lemma collapse_newlines_id:
  "\<not> js_includes s [LF, LF] \<Longrightarrow> collapse_newlines s = s"
proof (induction s rule: collapse_newlines.induct)
  case 1
  then show ?case by simp
next
  case (2 c cs)
  show ?case
  proof (cases "c = LF")
    case False
    with 2 show ?thesis by simp
  next
    case True
    with 2 have nostart: "\<not> (\<exists>r. cs = LF # r)" and rest: "\<not> js_includes cs [LF, LF]"
      by auto
    from nostart have tw: "takeWhile (\<lambda>x. x = LF) cs = []" and dw: "dropWhile (\<lambda>x. x = LF) cs = cs"
      by (cases cs; simp)+
    with 2 True rest show ?thesis by simp
  qed
qed

lemma filtered_lines:
  "\<forall>l\<in>set (filter keep_line (split_nl s)). LF \<notin> set l \<and> l \<noteq> []"
  using split_nl_no_LF keep_line_nonblank by fastforce

lemma clean_eq_join:
  "cleanAmplifierOutput text = join_nl (filter keep_line (split_nl (strip_ansi text)))"
  unfolding cleanAmplifierOutput_def Let_def
  by (rule collapse_newlines_id, rule join_nl_no_double, rule filtered_lines)

lemma join_nl_Nil_iff: "\<forall>l\<in>set ls. l \<noteq> [] \<Longrightarrow> join_nl ls = [] \<longleftrightarrow> ls = []"
  by (induction ls rule: join_nl.induct) auto

text \<open>
  Claim C9. For every input text the output of the sanitizer has no blank line: it never
  holds two consecutive line feeds, and when it is not empty every one of its lines has
  content that is not only white space. (The empty output has no line at all.)
\<close>

theorem sanitizer_output_has_no_blank_line:
  "\<not> js_includes (cleanAmplifierOutput text) [LF, LF] \<and>
   (cleanAmplifierOutput text \<noteq> [] \<longrightarrow>
      list_all (\<lambda>l. trim l \<noteq> []) (split_nl (cleanAmplifierOutput text)))"
proof -
  let ?F = "filter keep_line (split_nl (strip_ansi text))"
  have F: "\<forall>l\<in>set ?F. LF \<notin> set l \<and> l \<noteq> []" by (rule filtered_lines)
  have eq: "cleanAmplifierOutput text = join_nl ?F" by (rule clean_eq_join)
  have a: "\<not> js_includes (join_nl ?F) [LF, LF]" using F by (rule join_nl_no_double)
  have b: "list_all (\<lambda>l. trim l \<noteq> []) (split_nl (join_nl ?F))" if "join_nl ?F \<noteq> []"
  proof -
    from that have ne: "?F \<noteq> []" by auto
    with F have "split_nl (join_nl ?F) = ?F" by (simp add: split_join_nl)
    then show ?thesis by (simp add: list_all_iff keep_line_nonblank)
  qed
  from a b show ?thesis unfolding eq by blast
qed

lemma strip_ansi_without_sgr: "\<not> has_sgr xs \<Longrightarrow> strip_ansi xs = xs"
  by (induction xs) auto


text \<open>
  Claim C7, amended. For every input text none of whose lines, once the SGR colour
  sequences are removed, is a banner line, the output is the input with every SGR colour
  sequence (ESC, \<open>[\<close>, digits and semicolons, \<open>m\<close>; matched from left to right) removed and
  every blank line deleted, the remaining lines unchanged and in order; when there is no
  blank line either, the output is the input without those sequences. Nothing else is
  removed: any other terminal control sequence stays, and a text that holds no SGR
  sequence passes the first step unchanged.
\<close>

theorem sanitizer_without_banners:
  assumes "no_banner text"
  shows "cleanAmplifierOutput text =
           join_nl (filter (\<lambda>l. trim l \<noteq> []) (split_nl (strip_ansi text))) \<and>
         (list_all (\<lambda>l. trim l \<noteq> []) (split_nl (strip_ansi text)) \<longrightarrow>
            cleanAmplifierOutput text = strip_ansi text) \<and>
         (\<not> has_sgr text \<longrightarrow> strip_ansi text = text)"
proof -
  let ?L = "split_nl (strip_ansi text)"
  have "filter keep_line ?L = filter (\<lambda>l. trim l \<noteq> []) ?L"
    using assms by (intro filter_cong) (auto simp: no_banner_def list_all_iff keep_line_def)
  then have eq: "cleanAmplifierOutput text = join_nl (filter (\<lambda>l. trim l \<noteq> []) ?L)"
    by (simp add: clean_eq_join)
  moreover have "cleanAmplifierOutput text = strip_ansi text"
    if "list_all (\<lambda>l. trim l \<noteq> []) ?L"
  proof -
    from that have "filter (\<lambda>l. trim l \<noteq> []) ?L = ?L" by (simp add: list_all_iff)
    with eq show ?thesis by (simp add: join_split_nl)
  qed
  moreover have "\<not> has_sgr text \<longrightarrow> strip_ansi text = text"
    by (simp add: strip_ansi_without_sgr)
  ultimately show ?thesis by blast
qed


lemma eq_replicate_iff:
  "xs = replicate n x \<longleftrightarrow> length xs = n \<and> list_all (\<lambda>y. y = x) xs"
  by (auto simp: list_all_iff replicate_length_same dest: sym)

lemmas sanitizer_eval =
  cleanAmplifierOutput_def keep_line_def trim_def is_space_def is_metadata_def
  box_or_space_def is_sgr_param_def ascii_def LF_def eq_replicate_iff no_banner_def

text \<open>
  Claim C7 as stated fails on \<open>a\n\nb\<close>: the text has no banner line, no control sequence
  and no run of three line feeds, yet the sanitizer does not return it unchanged: the
  blank line is dropped.
\<close>

theorem blank_line_dropped_counterexample:
  "no_banner [97, 10, 10, 98] \<and> strip_ansi [97, 10, 10, 98] = [97, 10, 10, 98] \<and>
   collapse_newlines [97, 10, 10, 98] = [97, 10, 10, 98] \<and>
   cleanAmplifierOutput [97, 10, 10, 98] = [97, 10, 98]"
  by (simp add: sanitizer_eval)

text \<open>The two sanitizer theorems at concrete texts.\<close>

theorem sanitizer_output_has_no_blank_line_witness:
  "cleanAmplifierOutput [27, 91, 51, 49, 109, 97, 10, 10, 10, 32, 98, 10] = [97, 10, 32, 98] \<and>
   list_all (\<lambda>l. trim l \<noteq> []) (split_nl (cleanAmplifierOutput [27, 91, 51, 49, 109, 97, 10, 10, 10, 32, 98, 10]))"
  using sanitizer_output_has_no_blank_line [of "[27, 91, 51, 49, 109, 97, 10, 10, 10, 32, 98, 10]"]
  by (simp add: sanitizer_eval)

theorem sanitizer_without_banners_witness:
  "no_banner [27, 91, 51, 49, 109, 97, 10, 10, 10, 32, 98, 10] \<and>
   cleanAmplifierOutput [27, 91, 51, 49, 109, 97, 10, 10, 10, 32, 98, 10] = [97, 10, 32, 98] \<and>
   list_all (\<lambda>l. trim l \<noteq> []) (split_nl (strip_ansi [97, 10, 98])) \<and>
   cleanAmplifierOutput [97, 10, 98] = [97, 10, 98] \<and>
   no_banner [27, 91, 50, 75, 32, 97] \<and> \<not> has_sgr [27, 91, 50, 75, 32, 97] \<and>
   cleanAmplifierOutput [27, 91, 50, 75, 32, 97] = [27, 91, 50, 75, 32, 97]"
  using sanitizer_without_banners [of "[27, 91, 51, 49, 109, 97, 10, 10, 10, 32, 98, 10]"]
    sanitizer_without_banners [of "[97, 10, 98]"]
    sanitizer_without_banners [of "[27, 91, 50, 75, 32, 97]"]
  by (simp add: sanitizer_eval)

section \<open>Properties of the codec\<close>

lemmas primitive_defs =
  settle_def update_call_def clearTimeout_def delete_current_def report_to_def

lemma route_buffer:
  "route r (s\<lparr>responseBuffer := x\<rparr>) = with_buffer x (route r s)"
proof (cases "pendingResponses s ''current''")
  case None
  then show ?thesis by (simp add: route_def with_buffer_def)
next
  case (Some f)
  show ?thesis
  proof (cases f)
    case (InitResolver c)
    with Some show ?thesis
      by (simp add: route_def init_resolver_def with_buffer_def primitive_defs Let_def
          split: sum.splits)
  next
    case (ExecResolver c)
    with Some show ?thesis
      by (simp add: route_def exec_resolver_def with_buffer_def primitive_defs Let_def
          split: sum.splits option.splits json.splits)
  qed
qed

lemma process_line_buffer:
  "process_line P l (s\<lparr>responseBuffer := x\<rparr>) = (process_line P l s)\<lparr>responseBuffer := x\<rparr>"
  by (simp add: process_line_def try_block_def route_buffer catch_block_def with_buffer_def
      split: option.splits sum.splits prod.splits)

lemma fold_process_line_buffer:
  "fold (process_line P) ls (s\<lparr>responseBuffer := x\<rparr>)
     = (fold (process_line P) ls s)\<lparr>responseBuffer := x\<rparr>"
  by (induction ls arbitrary: s) (simp_all add: process_line_buffer)

lemma responseBuffer_fold_process_line:
  "responseBuffer (fold (process_line P) ls s) = responseBuffer s"
proof -
  have "fold (process_line P) ls (s\<lparr>responseBuffer := responseBuffer s\<rparr>)
          = (fold (process_line P) ls s)\<lparr>responseBuffer := responseBuffer s\<rparr>"
    by (rule fold_process_line_buffer)
  then have "fold (process_line P) ls s = (fold (process_line P) ls s)\<lparr>responseBuffer := responseBuffer s\<rparr>"
    by simp
  then have "responseBuffer (fold (process_line P) ls s)
      = responseBuffer ((fold (process_line P) ls s)\<lparr>responseBuffer := responseBuffer s\<rparr>)"
    by simp
  then show ?thesis by simp
qed

lemma responseBuffer_handle:
  "responseBuffer (handleBridgeResponse D P data s) = last (split_nl (responseBuffer s @ D data))"
  by (simp add: handleBridgeResponse_def Let_def responseBuffer_fold_process_line)

text \<open>
  Claim C8. After \<open>handleBridgeResponse\<close> has run on any chunk, from any state, the decode
  buffer holds no line feed.
\<close>

theorem buffer_never_holds_newline:
  "LF \<notin> set (responseBuffer (handleBridgeResponse D P data s))"
  unfolding responseBuffer_handle
  by (rule split_nl_no_LF [of _ "responseBuffer s @ D data"]) simp

lemma decoded_messages_append [simp]:
  "decoded_messages (xs @ ys) = decoded_messages xs @ decoded_messages ys"
  by (induction xs rule: decoded_messages.induct) auto

lemma console_route:
  "console (state_of (route r s)) = console s @ [BridgeResponse r]"
proof (cases "pendingResponses s ''current''")
  case None
  then show ?thesis by (simp add: route_def state_of_def)
next
  case (Some f)
  show ?thesis
  proof (cases f)
    case (InitResolver c)
    with Some show ?thesis
      by (simp add: route_def init_resolver_def state_of_def primitive_defs Let_def
          split: sum.splits)
  next
    case (ExecResolver c)
    with Some show ?thesis
      by (simp add: route_def exec_resolver_def state_of_def primitive_defs Let_def
          split: sum.splits option.splits json.splits)
  qed
qed

lemma decoded_catch_route:
  "decoded_messages (console (catch_block l (route r s))) = decoded_messages (console s) @ [r]"
proof (cases "route r s")
  case (Inl a)
  obtain e s' where a: "a = (e, s')" by (cases a)
  with Inl console_route [of r s] show ?thesis
    by (simp add: catch_block_def state_of_def)
next
  case (Inr s')
  with console_route [of r s] show ?thesis
    by (simp add: catch_block_def state_of_def)
qed

lemma decoded_process_line:
  "decoded_messages (console (process_line P l s)) =
     decoded_messages (console s) @
       (if trim l = [] then [] else (case P l of None \<Rightarrow> [] | Some r \<Rightarrow> [r]))"
proof (cases "P l")
  case None
  then show ?thesis by (simp add: process_line_def try_block_def catch_block_def)
next
  case (Some r)
  then show ?thesis by (simp add: process_line_def try_block_def decoded_catch_route)
qed

lemma decoded_fold_process_line:
  "decoded_messages (console (fold (process_line P) ls s)) =
     decoded_messages (console s) @
       concat (map (\<lambda>l. if trim l = [] then [] else (case P l of None \<Rightarrow> [] | Some r \<Rightarrow> [r])) ls)"
  by (induction ls arbitrary: s) (simp_all add: decoded_process_line)

lemma split_nl_lines:
  "\<forall>l\<in>set ls. LF \<notin> set l \<Longrightarrow> split_nl (concat (map (\<lambda>l. l @ [LF]) ls)) = ls @ [[]]"
  by (induction ls) (simp_all add: split_nl_line)

lemma handle_lines:
  assumes "responseBuffer s = []" and "D data = concat (map (\<lambda>l. l @ [LF]) ls)"
    and "\<forall>l\<in>set ls. LF \<notin> set l"
  shows "handleBridgeResponse D P data s = fold (process_line P) ls s"
proof -
  have "split_nl (responseBuffer s @ D data) = ls @ [[]]"
    using assms by (simp add: split_nl_lines)
  moreover have "s\<lparr>responseBuffer := []\<rparr> = s" using assms(1) by simp
  ultimately show ?thesis by (simp add: handleBridgeResponse_def Let_def)
qed

lemma handle_append:
  assumes "D (a @ b) = D a @ D b"
  shows "handleBridgeResponse D P (a @ b) s
           = handleBridgeResponse D P b (handleBridgeResponse D P a s)"
proof -
  let ?A = "split_nl (responseBuffer s @ D a)"
  let ?B = "split_nl (D b)"
  let ?T = "(last ?A @ hd ?B) # tl ?B"
  let ?sa = "handleBridgeResponse D P a s"
  have rb: "responseBuffer ?sa = last ?A" by (rule responseBuffer_handle)
  have free: "LF \<notin> set (last ?A)"
    by (rule split_nl_no_LF [of _ "responseBuffer s @ D a"]) simp
  have whole: "split_nl (responseBuffer s @ D (a @ b)) = butlast ?A @ ?T"
    using split_nl_append [of "responseBuffer s @ D a" "D b"] assms by simp
  have second: "split_nl (responseBuffer ?sa @ D b) = ?T"
    using free by (simp add: rb split_nl_append_free)
  have sa: "?sa = fold (process_line P) (butlast ?A) (s\<lparr>responseBuffer := last ?A\<rparr>)"
    by (simp add: handleBridgeResponse_def Let_def)
  have "handleBridgeResponse D P (a @ b) s
          = fold (process_line P) (butlast ?T)
              (fold (process_line P) (butlast ?A) (s\<lparr>responseBuffer := last ?T\<rparr>))"
    unfolding handleBridgeResponse_def Let_def whole
    by (simp add: butlast_append)
  also have "\<dots> = fold (process_line P) (butlast ?T)
                    ((fold (process_line P) (butlast ?A) s)\<lparr>responseBuffer := last ?T\<rparr>)"
    by (simp only: fold_process_line_buffer)
  also have "\<dots> = fold (process_line P) (butlast ?T) (?sa\<lparr>responseBuffer := last ?T\<rparr>)"
    by (simp add: sa fold_process_line_buffer)
  also have "\<dots> = handleBridgeResponse D P b ?sa"
    unfolding handleBridgeResponse_def [of D P b] Let_def second by simp
  finally show ?thesis .
qed

lemma handle_nothing:
  assumes "D data = []" and "LF \<notin> set (responseBuffer s)"
  shows "handleBridgeResponse D P data s = s"
  using assms by (simp add: handleBridgeResponse_def Let_def split_nl_free)

lemma chunking_irrelevant_when_aligned:
  assumes "aligned D chunks" and "LF \<notin> set (responseBuffer s)"
  shows "fold (handleBridgeResponse D P) chunks s = handleBridgeResponse D P (concat chunks) s"
  using assms
proof (induction chunks arbitrary: s)
  case Nil
  then show ?case by (simp add: handle_nothing)
next
  case (Cons c cs)
  have "LF \<notin> set (responseBuffer (handleBridgeResponse D P c s))"
    unfolding responseBuffer_handle
    by (rule split_nl_no_LF [of _ "responseBuffer s @ D c"]) simp
  with Cons show ?case by (simp add: handle_append)
qed

text \<open>
  Claim C6. A chunk decodes to the lines \<open>pre\<close>, then a line \<open>bad\<close> that \<open>JSON.parse\<close>
  rejects, then the lines \<open>post\<close>, each ended by a line feed, where the lines of \<open>pre\<close> and
  \<open>post\<close> are not blank and parse. Then \<open>handleBridgeResponse\<close> returns (the exception of
  \<open>JSON.parse\<close> ends in the \<open>catch\<close> clause), and the messages it decoded are exactly those
  of \<open>pre\<close> and \<open>post\<close>, in order: the malformed line is skipped and nothing else is.
\<close>

theorem malformed_line_skipped:
  assumes "responseBuffer s = []"
    and "D data = concat (map (\<lambda>l. l @ [LF]) (pre @ [bad] @ post))"
    and "\<forall>l\<in>set (pre @ [bad] @ post). LF \<notin> set l"
    and "P bad = None"
    and "\<forall>l\<in>set (pre @ post). trim l \<noteq> [] \<and> P l \<noteq> None"
  shows "decoded_messages (console (handleBridgeResponse D P data s))
           = decoded_messages (console s) @ map (\<lambda>l. the (P l)) (pre @ post)"
proof -
  let ?F = "\<lambda>l. if trim l = [] then [] else (case P l of None \<Rightarrow> [] | Some r \<Rightarrow> [r])"
  have valid: "concat (map ?F ls) = map (\<lambda>l. the (P l)) ls"
    if "\<forall>l\<in>set ls. trim l \<noteq> [] \<and> P l \<noteq> None" for ls
    using that by (induction ls) auto
  have bad: "?F bad = []" using assms(4) by simp
  have "concat (map ?F (pre @ [bad] @ post)) = concat (map ?F pre) @ ?F bad @ concat (map ?F post)"
    by simp
  also have "\<dots> = map (\<lambda>l. the (P l)) pre @ map (\<lambda>l. the (P l)) post"
    using assms(5) by (simp only: bad valid) (simp add: valid)
  finally have lines: "concat (map ?F (pre @ [bad] @ post)) = map (\<lambda>l. the (P l)) (pre @ post)"
    by simp
  have "handleBridgeResponse D P data s = fold (process_line P) (pre @ [bad] @ post) s"
    using assms(1-3) by (rule handle_lines)
  then show ?thesis
    by (simp only: decoded_fold_process_line lines)
qed

section \<open>The example run\<close>

lemmas scenario_defs =
  after_spawn_def init_issued_def initialized_message_def after_init_def exec_issued_def
  hello_message_def new_provider_def ensureBridgeProcess_def initializeBridge_def
  executeOnBridge_def set_current_def stdin_ready_def write_stdin_def route_def state_of_def
  init_resolver_def exec_resolver_def primitive_defs timer_elapsed_def init_timeout_def
  exec_timeout_def on_close_def on_cancel_def call_outcome_def ascii_def Let_def


lemma after_init_facts:
  "stdin_ready after_init" "responseBuffer after_init = []"
  "executeOnBridge (ascii ''hi'') 0 after_init = (1, exec_issued)"
  by (simp_all add: scenario_defs)

lemma exec_issued_facts:
  "call_outcome exec_issued 1 = Some Pending" "responseBuffer exec_issued = []"
  "reported exec_issued = []" "resolver_calls exec_issued = [(InitResolver 0, initialized_message)]"
  by (simp_all add: scenario_defs)

lemma hello_line_facts:
  "LF \<notin> set hello_line" "trim hello_line \<noteq> []" "sample_parse hello_line = Some hello_message"
  "is_response hello_message"
  by (simp_all add: hello_line_def sample_parse_def hello_message_def is_response_def
      trim_def is_space_def ascii_def LF_def)

lemma utf8_short_ascii: "\<forall>b\<in>set bs. b < 128 \<Longrightarrow> utf8_short bs = bs"
  by (induction bs rule: utf8_short.induct) auto

lemma hello_chunk_facts:
  "utf8_short (hello_line @ [LF]) = hello_line @ [LF]"
proof -
  have "\<forall>b\<in>set (hello_line @ [LF]). b < 128"
    by (simp add: hello_line_def ascii_def LF_def)
  then show ?thesis by (rule utf8_short_ascii)
qed


section \<open>Timeouts and process exit\<close>

text \<open>
  Claim C2 at its failing input. The timer of the execute call elapses with no message
  received: the call is rejected with the timeout error, and \<open>pendingResponses\<close> still
  holds the call's callback under 'current'. The same happens to the initialize call.
\<close>

theorem timeout_leaves_slot_occupied:
  "call_outcome (timer_elapsed 1 exec_issued) 1 = Some (Rejected ExecTimeout) \<and>
   pendingResponses (timer_elapsed 1 exec_issued) ''current'' = Some (ExecResolver 1) \<and>
   call_outcome (timer_elapsed 0 init_issued) 0 = Some (Rejected InitTimeout) \<and>
   pendingResponses (timer_elapsed 0 init_issued) ''current'' = Some (InitResolver 0)"
  by (simp add: scenario_defs)


text \<open>
  Claim C3 as stated fails: the worker exits while the execute call is pending, and the
  call is not rejected. It stays pending with its timer running.
\<close>

theorem exit_leaves_call_pending_counterexample:
  "call_outcome exec_issued 1 = Some Pending \<and>
   call_outcome (on_close exec_issued) 1 = Some Pending \<and>
   timer_armed (calls (on_close exec_issued) ! 1)"
  by (simp add: scenario_defs)

text \<open>
  Claim C3, amended. When the worker process exits, the initialized flag is cleared and
  the process reference is dropped; the promises, their timers and the pending-call slot
  are left as they were.
\<close>

theorem exit_clears_flag_and_process:
  "isInitialized (on_close s) = False \<and> bridgeProcess (on_close s) = None \<and>
   calls (on_close s) = calls s \<and> pendingResponses (on_close s) = pendingResponses s"
  by (simp add: on_close_def)


text \<open>
  Claim C1 as stated fails: one \<open>response\<close> chunk is received and reported, no terminal
  message follows, the timer elapses, and the call is still pending.
\<close>

theorem timeout_after_chunk_counterexample:
  "reported (state_of (route hello_message exec_issued)) = [(0, Chunk (ascii ''Hello''))] \<and>
   call_outcome (timer_elapsed 1 (state_of (route hello_message exec_issued))) 1 = Some Pending"
  by (simp add: scenario_defs sanitizer_eval)

lemma exec_issue:
  assumes "stdin_ready s" and "executeOnBridge p g s = (c, s1)"
  shows "in_flight c s1" and "\<not> hasReceivedResponse (calls s1 ! c)"
    and "responseBuffer s1 = responseBuffer s" and "progress (calls s1 ! c) = g"
  using assms
  by (auto simp: executeOnBridge_def in_flight_def Let_def set_current_def stdin_ready_def
      write_stdin_def nth_append split: option.splits)

lemma timer_elapsed_in_flight:
  assumes "in_flight c s"
  shows "call_outcome (timer_elapsed c s) c
           = Some (if hasReceivedResponse (calls s ! c) then Pending else Rejected ExecTimeout)"
  using assms
  by (simp add: in_flight_def timer_elapsed_def exec_timeout_def call_outcome_def primitive_defs Let_def)

lemma in_flight_buffer [simp]: "in_flight c (s\<lparr>responseBuffer := b\<rparr>) = in_flight c s"
  by (simp add: in_flight_def)

lemma in_flight_console [simp]: "in_flight c (s\<lparr>console := es\<rparr>) = in_flight c s"
  by (simp add: in_flight_def)

lemma message_keeps_in_flight:
  assumes "in_flight c s" and "\<not> is_terminal m"
  shows "in_flight c (catch_block l (route m s)) \<and>
         (hasReceivedResponse (calls (catch_block l (route m s)) ! c)
            \<longleftrightarrow> hasReceivedResponse (calls s ! c) \<or> is_response m)"
proof (cases m)
  case (JObject kvs)
  show ?thesis
  proof (cases "map_of kvs (ascii ''type'') = Some (JString (ascii ''response''))")
    case True
    with assms(1) show ?thesis unfolding JObject
      by (simp add: route_def catch_block_def exec_resolver_def in_flight_def primitive_defs
          is_response_def Let_def split: option.splits json.splits)
  next
    case False
    with assms show ?thesis unfolding JObject
      by (simp add: route_def catch_block_def exec_resolver_def in_flight_def
          is_response_def is_terminal_def Let_def)
  qed
qed (use assms(1) in \<open>simp_all add: route_def catch_block_def exec_resolver_def in_flight_def
      is_response_def Let_def\<close>)

lemma line_keeps_in_flight:
  assumes "in_flight c s" and "list_all (\<lambda>m. \<not> is_terminal m) (line_messages P l)"
  shows "in_flight c (process_line P l s) \<and>
         (hasReceivedResponse (calls (process_line P l s) ! c)
            \<longleftrightarrow> hasReceivedResponse (calls s ! c) \<or> list_ex is_response (line_messages P l))"
proof (cases "trim l = []")
  case True
  with assms(1) show ?thesis by (simp add: process_line_def line_messages_def)
next
  case False
  show ?thesis
  proof (cases "P l")
    case None
    with False assms(1) show ?thesis
      by (simp add: process_line_def try_block_def catch_block_def line_messages_def)
  next
    case (Some m)
    with False assms(2) have "\<not> is_terminal m" by (simp add: line_messages_def)
    from message_keeps_in_flight [OF assms(1) this, of l] Some False show ?thesis
      by (simp add: process_line_def try_block_def line_messages_def)
  qed
qed

lemma lines_keep_in_flight:
  assumes "in_flight c s"
    and "list_all (\<lambda>m. \<not> is_terminal m) (concat (map (line_messages P) ls))"
  shows "in_flight c (fold (process_line P) ls s) \<and>
         (hasReceivedResponse (calls (fold (process_line P) ls s) ! c)
            \<longleftrightarrow> hasReceivedResponse (calls s ! c)
                \<or> list_ex is_response (concat (map (line_messages P) ls)))"
  using assms
proof (induction ls arbitrary: s)
  case Nil
  then show ?case by simp
next
  case (Cons l ls)
  from Cons.prems(2) have a: "list_all (\<lambda>m. \<not> is_terminal m) (line_messages P l)"
    and b: "list_all (\<lambda>m. \<not> is_terminal m) (concat (map (line_messages P) ls))"
    by simp_all
  note step = line_keeps_in_flight [OF Cons.prems(1) a]
  from Cons.IH [OF conjunct1 [OF step] b] step show ?case by auto
qed

lemma decoded_fold_lines:
  "decoded_messages (console (fold (process_line P) ls s))
     = decoded_messages (console s) @ concat (map (line_messages P) ls)"
  unfolding line_messages_def by (rule decoded_fold_process_line)

lemma handle_as_fold:
  "handleBridgeResponse D P data s
     = fold (process_line P) (butlast (split_nl (responseBuffer s @ D data)))
         (s\<lparr>responseBuffer := last (split_nl (responseBuffer s @ D data))\<rparr>)"
  by (simp add: handleBridgeResponse_def Let_def)

lemma chunks_keep_in_flight:
  "\<exists>ms. decoded_messages (console (fold (handleBridgeResponse D P) chunks s))
          = decoded_messages (console s) @ ms \<and>
        (in_flight c s \<longrightarrow> list_all (\<lambda>m. \<not> is_terminal m) ms \<longrightarrow>
           in_flight c (fold (handleBridgeResponse D P) chunks s) \<and>
           (hasReceivedResponse (calls (fold (handleBridgeResponse D P) chunks s) ! c)
              \<longleftrightarrow> hasReceivedResponse (calls s ! c) \<or> list_ex is_response ms))"
proof (induction chunks arbitrary: s)
  case Nil
  show ?case by (rule exI [of _ "[]"]) simp
next
  case (Cons ch chunks)
  let ?L = "butlast (split_nl (responseBuffer s @ D ch))"
  let ?b = "last (split_nl (responseBuffer s @ D ch))"
  let ?s' = "handleBridgeResponse D P ch s"
  let ?m1 = "concat (map (line_messages P) ?L)"
  have h: "?s' = fold (process_line P) ?L (s\<lparr>responseBuffer := ?b\<rparr>)"
    by (rule handle_as_fold)
  have d1: "decoded_messages (console ?s') = decoded_messages (console s) @ ?m1"
    unfolding h by (simp add: decoded_fold_lines)
  from Cons.IH [of ?s'] obtain m2 where
    d2: "decoded_messages (console (fold (handleBridgeResponse D P) chunks ?s'))
           = decoded_messages (console ?s') @ m2"
    and rest: "in_flight c ?s' \<longrightarrow> list_all (\<lambda>m. \<not> is_terminal m) m2 \<longrightarrow>
           in_flight c (fold (handleBridgeResponse D P) chunks ?s') \<and>
           (hasReceivedResponse (calls (fold (handleBridgeResponse D P) chunks ?s') ! c)
              \<longleftrightarrow> hasReceivedResponse (calls ?s' ! c) \<or> list_ex is_response m2)"
    by blast
  have first: "in_flight c ?s' \<and>
      (hasReceivedResponse (calls ?s' ! c)
         \<longleftrightarrow> hasReceivedResponse (calls s ! c) \<or> list_ex is_response ?m1)"
    if "in_flight c s" "list_all (\<lambda>m. \<not> is_terminal m) ?m1"
  proof -
    have "in_flight c (s\<lparr>responseBuffer := ?b\<rparr>)" using that(1) by simp
    from lines_keep_in_flight [OF this that(2)] show ?thesis unfolding h by simp
  qed
  show ?case
  proof (rule exI [of _ "?m1 @ m2"], intro conjI impI)
    show "decoded_messages (console (fold (handleBridgeResponse D P) (ch # chunks) s))
            = decoded_messages (console s) @ ?m1 @ m2"
      using d1 d2 by simp
  next
    assume fl: "in_flight c s" and nt: "list_all (\<lambda>m. \<not> is_terminal m) (?m1 @ m2)"
    from nt have n1: "list_all (\<lambda>m. \<not> is_terminal m) ?m1"
      and n2: "list_all (\<lambda>m. \<not> is_terminal m) m2" by simp_all
    note f = first [OF fl n1]
    from rest f n2 show "in_flight c (fold (handleBridgeResponse D P) (ch # chunks) s)"
      by simp
    from rest f n2 show "hasReceivedResponse (calls (fold (handleBridgeResponse D P) (ch # chunks) s) ! c)
          \<longleftrightarrow> hasReceivedResponse (calls s ! c) \<or> list_ex is_response (?m1 @ m2)"
      by auto
  qed
qed


text \<open>
  Claim C1, amended. An execute call is issued on a process with a stdin, and until its
  timer elapses only output of the worker arrives, in any chunks and with any lines
  (blank, malformed, cut by a chunk boundary, or messages of any kind), none of the
  decoded messages being terminal (\<open>error\<close> or \<open>done\<close>). Then the call fails with the
  timeout error when no \<open>response\<close> message was among them, and stays pending, with no
  timeout error, when at least one was.
\<close>

theorem timeout_only_without_any_response:
  assumes "stdin_ready s"
    and "executeOnBridge userPrompt prog s = (c, s1)"
    and "list_all (\<lambda>m. \<not> is_terminal m)
           (received s1 (fold (handleBridgeResponse D P) chunks s1))"
  shows "call_outcome (timer_elapsed c (fold (handleBridgeResponse D P) chunks s1)) c
           = Some (if list_ex is_response (received s1 (fold (handleBridgeResponse D P) chunks s1))
                   then Pending else Rejected ExecTimeout)"
proof -
  let ?s2 = "fold (handleBridgeResponse D P) chunks s1"
  note issue = exec_issue [OF assms(1,2)]
  from chunks_keep_in_flight [of D P chunks s1 c] obtain ms where
    d: "decoded_messages (console ?s2) = decoded_messages (console s1) @ ms"
    and keep: "in_flight c s1 \<longrightarrow> list_all (\<lambda>m. \<not> is_terminal m) ms \<longrightarrow>
           in_flight c ?s2 \<and>
           (hasReceivedResponse (calls ?s2 ! c)
              \<longleftrightarrow> hasReceivedResponse (calls s1 ! c) \<or> list_ex is_response ms)"
    by blast
  have r: "received s1 ?s2 = ms" by (simp add: received_def d)
  from keep issue(1,2) assms(3) r
  have "in_flight c ?s2" and "hasReceivedResponse (calls ?s2 ! c) \<longleftrightarrow> list_ex is_response ms"
    by simp_all
  with timer_elapsed_in_flight [of c ?s2] r show ?thesis by simp
qed

lemma split_nl_lines_rest:
  "\<forall>l\<in>set ls. LF \<notin> set l \<Longrightarrow> LF \<notin> set rest \<Longrightarrow>
     split_nl (concat (map (\<lambda>l. l @ [LF]) ls) @ rest) = ls @ [rest]"
  by (induction ls) (simp_all add: split_nl_line split_nl_free)

lemma handle_buffered_lines:
  assumes "responseBuffer s @ D data = concat (map (\<lambda>l. l @ [LF]) ls) @ rest"
    and "\<forall>l\<in>set ls. LF \<notin> set l" and "LF \<notin> set rest"
  shows "handleBridgeResponse D P data s = (fold (process_line P) ls s)\<lparr>responseBuffer := rest\<rparr>"
proof -
  have "split_nl (responseBuffer s @ D data) = ls @ [rest]"
    unfolding assms(1) using assms(2,3) by (rule split_nl_lines_rest)
  then show ?thesis
    by (simp add: handleBridgeResponse_def Let_def fold_process_line_buffer)
qed

lemma received_lines:
  "received s ((fold (process_line P) ls (s\<lparr>responseBuffer := b\<rparr>))\<lparr>responseBuffer := b'\<rparr>)
     = concat (map (line_messages P) ls)"
  by (simp add: received_def decoded_fold_lines)

lemma received_lines_plain:
  "received s ((fold (process_line P) ls s)\<lparr>responseBuffer := b'\<rparr>)
     = concat (map (line_messages P) ls)"
  by (simp add: received_def decoded_fold_lines)

lemma hello_parts:
  "hello_head @ hello_tail = hello_line" "LF \<notin> set hello_head"
  "utf8_short hello_head = hello_head"
  "utf8_short (hello_tail @ [LF] @ ascii ''not json'' @ [LF, LF])
     = hello_tail @ [LF] @ ascii ''not json'' @ [LF, LF]"
  "utf8_short (ascii ''not json'' @ [LF]) = ascii ''not json'' @ [LF]"
  "LF \<notin> set (ascii ''not json'')"
  "line_messages sample_parse hello_line = [hello_message]"
  "line_messages sample_parse (ascii ''not json'') = []"
  "line_messages sample_parse [] = []"
  by (simp_all add: hello_head_def hello_tail_def hello_line_def line_start_def line_end_def
      utf8_short_ascii line_messages_def sample_parse_def trim_def is_space_def ascii_def LF_def)

lemma hello_message_kind: "is_response hello_message" "\<not> is_terminal hello_message"
  by (simp_all add: hello_message_def is_response_def is_terminal_def ascii_def)


theorem timeout_only_without_any_response_witness:
  "stdin_ready after_init \<and> executeOnBridge (ascii ''hi'') 0 after_init = (1, exec_issued) \<and>
   received exec_issued (fold (handleBridgeResponse utf8_short sample_parse)
       [hello_head, hello_tail @ [LF] @ ascii ''not json'' @ [LF, LF]] exec_issued) = [hello_message] \<and>
   call_outcome (timer_elapsed 1 (fold (handleBridgeResponse utf8_short sample_parse)
       [hello_head, hello_tail @ [LF] @ ascii ''not json'' @ [LF, LF]] exec_issued)) 1 = Some Pending \<and>
   received exec_issued (fold (handleBridgeResponse utf8_short sample_parse)
       [ascii ''not json'' @ [LF], hello_head] exec_issued) = [] \<and>
   call_outcome (timer_elapsed 1 (fold (handleBridgeResponse utf8_short sample_parse)
       [ascii ''not json'' @ [LF], hello_head] exec_issued)) 1 = Some (Rejected ExecTimeout)"
proof -
  let ?H = "handleBridgeResponse utf8_short sample_parse"
  let ?A = "[hello_head, hello_tail @ [LF] @ ascii ''not json'' @ [LF, LF]]"
  let ?B = "[ascii ''not json'' @ [LF], hello_head]"
  have rb: "responseBuffer exec_issued = []" by (rule exec_issued_facts)
  have a1: "?H hello_head exec_issued = (fold (process_line sample_parse) [] exec_issued)\<lparr>responseBuffer := hello_head\<rparr>"
    by (rule handle_buffered_lines) (simp_all add: rb hello_parts)
  have a2: "?H (hello_tail @ [LF] @ ascii ''not json'' @ [LF, LF]) (exec_issued\<lparr>responseBuffer := hello_head\<rparr>)
      = (fold (process_line sample_parse) [hello_line, ascii ''not json'', []]
           (exec_issued\<lparr>responseBuffer := hello_head\<rparr>))\<lparr>responseBuffer := []\<rparr>"
  proof (rule handle_buffered_lines)
    show "responseBuffer (exec_issued\<lparr>responseBuffer := hello_head\<rparr>)
            @ utf8_short (hello_tail @ [LF] @ ascii ''not json'' @ [LF, LF])
          = concat (map (\<lambda>l. l @ [LF]) [hello_line, ascii ''not json'', []]) @ []"
      by (simp only: hello_parts(4)) (simp add: hello_parts(1) [symmetric])
    show "\<forall>l\<in>set [hello_line, ascii ''not json'', []]. LF \<notin> set l"
      by (simp add: hello_parts(6) hello_line_facts(1))
    show "LF \<notin> set []" by simp
  qed
  have A: "fold ?H ?A exec_issued
      = (fold (process_line sample_parse) [hello_line, ascii ''not json'', []]
           (exec_issued\<lparr>responseBuffer := hello_head\<rparr>))\<lparr>responseBuffer := []\<rparr>"
    using a1 a2 by (simp only: fold_simps)
  have b1: "?H (ascii ''not json'' @ [LF]) exec_issued
      = (fold (process_line sample_parse) [ascii ''not json''] exec_issued)\<lparr>responseBuffer := []\<rparr>"
    by (rule handle_buffered_lines) (simp_all add: rb hello_parts)
  have b2: "?H hello_head ((fold (process_line sample_parse) [ascii ''not json''] exec_issued)\<lparr>responseBuffer := []\<rparr>)
      = (fold (process_line sample_parse) []
           ((fold (process_line sample_parse) [ascii ''not json''] exec_issued)\<lparr>responseBuffer := []\<rparr>))\<lparr>responseBuffer := hello_head\<rparr>"
    by (rule handle_buffered_lines) (simp_all add: hello_parts)
  have B: "fold ?H ?B exec_issued
      = (fold (process_line sample_parse) [ascii ''not json''] exec_issued)\<lparr>responseBuffer := hello_head\<rparr>"
    using b1 b2 by (simp only: fold_simps) simp
  have rA: "received exec_issued (fold ?H ?A exec_issued) = [hello_message]"
    unfolding A received_lines by (simp add: hello_parts)
  have rB: "received exec_issued (fold ?H ?B exec_issued) = []"
    unfolding B received_lines_plain by (simp add: hello_parts)
  have ntA: "list_all (\<lambda>m. \<not> is_terminal m) (received exec_issued (fold ?H ?A exec_issued))"
    unfolding rA by (simp add: hello_message_kind)
  have ntB: "list_all (\<lambda>m. \<not> is_terminal m) (received exec_issued (fold ?H ?B exec_issued))"
    unfolding rB by simp
  from timeout_only_without_any_response [of after_init "ascii ''hi''" 0 1 exec_issued
      utf8_short sample_parse ?A, OF after_init_facts(1,3) ntA]
    timeout_only_without_any_response [of after_init "ascii ''hi''" 0 1 exec_issued
      utf8_short sample_parse ?B, OF after_init_facts(1,3) ntB]
  show ?thesis
    using after_init_facts(1,3) rA rB by (simp add: hello_message_kind)
qed


section \<open>Cancellation\<close>


lemma idle_route:
  assumes "pendingResponses s ''current'' = None"
  shows "state_of (route r s) = s\<lparr>console := console s @ [BridgeResponse r]\<rparr> \<and>
         route r s = Inr (s\<lparr>console := console s @ [BridgeResponse r]\<rparr>)"
  using assms by (simp add: route_def state_of_def)

lemma idle_process_line:
  assumes "pendingResponses s ''current'' = None"
  shows "\<exists>es. process_line P l s = s\<lparr>console := es\<rparr>"
proof (cases "trim l = []")
  case True
  then have "process_line P l s = s\<lparr>console := console s\<rparr>" by (simp add: process_line_def)
  then show ?thesis by blast
next
  case False
  show ?thesis
  proof (cases "P l")
    case None
    with False have "process_line P l s = s\<lparr>console := console s @ [BridgeParseError SyntaxError l]\<rparr>"
      by (simp add: process_line_def try_block_def catch_block_def)
    then show ?thesis by blast
  next
    case (Some r)
    with False idle_route [OF assms, of r]
    have "process_line P l s = s\<lparr>console := console s @ [BridgeResponse r]\<rparr>"
      by (simp add: process_line_def try_block_def catch_block_def)
    then show ?thesis by blast
  qed
qed

lemma idle_fold_process_line:
  assumes "pendingResponses s ''current'' = None"
  shows "\<exists>es. fold (process_line P) ls s = s\<lparr>console := es\<rparr>"
  using assms
proof (induction ls arbitrary: s)
  case Nil
  have "s = s\<lparr>console := console s\<rparr>" by simp
  then show ?case by (metis fold_simps(1))
next
  case (Cons l ls)
  from idle_process_line [OF Cons.prems, of P l]
  obtain es where es: "process_line P l s = s\<lparr>console := es\<rparr>" by blast
  then have "pendingResponses (process_line P l s) ''current'' = None"
    using Cons.prems by simp
  from Cons.IH [OF this] obtain es' where
    "fold (process_line P) ls (process_line P l s) = (process_line P l s)\<lparr>console := es'\<rparr>"
    by blast
  with es have "fold (process_line P) (l # ls) s = s\<lparr>console := es'\<rparr>" by simp
  then show ?case by blast
qed

lemma idle_handle:
  assumes "pendingResponses s ''current'' = None"
  shows "\<exists>es b. handleBridgeResponse D P data s = s\<lparr>console := es, responseBuffer := b\<rparr>"
proof -
  let ?L = "split_nl (responseBuffer s @ D data)"
  have "pendingResponses (s\<lparr>responseBuffer := last ?L\<rparr>) ''current'' = None"
    using assms by simp
  from idle_fold_process_line [OF this, of P "butlast ?L"]
  obtain es where "fold (process_line P) (butlast ?L) (s\<lparr>responseBuffer := last ?L\<rparr>)
      = s\<lparr>responseBuffer := last ?L, console := es\<rparr>"
    by auto
  then have "handleBridgeResponse D P data s = s\<lparr>console := es, responseBuffer := last ?L\<rparr>"
    by (simp add: handleBridgeResponse_def Let_def)
  then show ?thesis by blast
qed

lemma idle_fold_handle:
  assumes "pendingResponses s ''current'' = None"
  shows "\<exists>es b. fold (handleBridgeResponse D P) chunks s = s\<lparr>console := es, responseBuffer := b\<rparr>"
  using assms
proof (induction chunks arbitrary: s)
  case Nil
  have "s = s\<lparr>console := console s, responseBuffer := responseBuffer s\<rparr>" by simp
  then show ?case by (metis fold_simps(1))
next
  case (Cons ch chunks)
  from idle_handle [OF Cons.prems, of D P ch]
  obtain es b where h: "handleBridgeResponse D P ch s = s\<lparr>console := es, responseBuffer := b\<rparr>"
    by blast
  then have "pendingResponses (handleBridgeResponse D P ch s) ''current'' = None"
    using Cons.prems by simp
  from Cons.IH [OF this] obtain es' b' where
    "fold (handleBridgeResponse D P) chunks (handleBridgeResponse D P ch s)
       = (handleBridgeResponse D P ch s)\<lparr>console := es', responseBuffer := b'\<rparr>"
    by blast
  with h have "fold (handleBridgeResponse D P) (ch # chunks) s = s\<lparr>console := es', responseBuffer := b'\<rparr>"
    by simp
  then show ?case by blast
qed

lemma on_cancel_effect:
  assumes "call_outcome s c = Some Pending"
  shows "call_outcome (on_cancel c s) c = Some (Rejected Cancelled)"
    and "pendingResponses (on_cancel c s) ''current'' = None"
    and "resolver_calls (on_cancel c s) = resolver_calls s"
    and "reported (on_cancel c s) = reported s"
  using assms
  by (auto simp: on_cancel_def call_outcome_def primitive_defs split: if_splits)

text \<open>
  Claim C5, amended. The cancellation listener of a call that is still pending rejects
  it with the cancellation error and empties the slot; whatever chunks the worker sends
  before another call is issued, \<open>handleBridgeResponse\<close> invokes no stored callback,
  reports nothing, and the call stays rejected with the cancellation error.
\<close>

theorem cancellation_silences_later_messages:
  assumes "call_outcome s c = Some Pending"
  shows "call_outcome (on_cancel c s) c = Some (Rejected Cancelled) \<and>
         resolver_calls (fold (handleBridgeResponse D P) chunks (on_cancel c s)) = resolver_calls s \<and>
         reported (fold (handleBridgeResponse D P) chunks (on_cancel c s)) = reported s \<and>
         call_outcome (fold (handleBridgeResponse D P) chunks (on_cancel c s)) c
           = Some (Rejected Cancelled) \<and>
         pendingResponses (fold (handleBridgeResponse D P) chunks (on_cancel c s)) ''current'' = None"
proof -
  note eff = on_cancel_effect [OF assms]
  from idle_fold_handle [OF eff(2), of D P chunks]
  obtain es b where
    f: "fold (handleBridgeResponse D P) chunks (on_cancel c s)
          = (on_cancel c s)\<lparr>console := es, responseBuffer := b\<rparr>"
    by blast
  have "call_outcome ((on_cancel c s)\<lparr>console := es, responseBuffer := b\<rparr>) c
          = call_outcome (on_cancel c s) c"
    by (simp add: call_outcome_def)
  with eff show ?thesis unfolding f by simp
qed

theorem cancellation_silences_later_messages_witness:
  "call_outcome exec_issued 1 = Some Pending \<and>
   call_outcome (on_cancel 1 exec_issued) 1 = Some (Rejected Cancelled) \<and>
   resolver_calls (fold (handleBridgeResponse utf8_short sample_parse) [hello_line @ [LF]]
       (on_cancel 1 exec_issued)) = [(InitResolver 0, initialized_message)] \<and>
   reported (fold (handleBridgeResponse utf8_short sample_parse) [hello_line @ [LF]]
       (on_cancel 1 exec_issued)) = []"
proof -
  have pending: "call_outcome exec_issued 1 = Some Pending"
    by (rule exec_issued_facts)
  from cancellation_silences_later_messages [OF pending, of utf8_short sample_parse "[hello_line @ [LF]]"]
  show ?thesis
    using pending by (simp only: exec_issued_facts)
qed


lemma second_issued_state:
  "responseBuffer second_issued = []"
  "call_outcome cancelled 1 = Some (Rejected Cancelled)"
  "pendingResponses cancelled ''current'' = None"
  by (simp_all add: second_issued_def cancelled_def scenario_defs)

text \<open>
  Claim C5 as stated fails once the next call is issued: call 1 is cancelled, a second
  request issues call 2, and a \<open>response\<close> message the worker still sends for the
  cancelled call invokes the callback of call 2 and is reported to the second request.
\<close>

theorem late_message_reaches_next_call_counterexample:
  "call_outcome cancelled 1 = Some (Rejected Cancelled) \<and>
   pendingResponses cancelled ''current'' = None \<and>
   resolver_calls (handleBridgeResponse utf8_short sample_parse (hello_line @ [LF]) second_issued)
     = [(InitResolver 0, initialized_message), (ExecResolver 2, hello_message)] \<and>
   reported (handleBridgeResponse utf8_short sample_parse (hello_line @ [LF]) second_issued)
     = [(1, Chunk (ascii ''Hello''))]"
proof -
  have "handleBridgeResponse utf8_short sample_parse (hello_line @ [LF]) second_issued
      = fold (process_line sample_parse) [hello_line] second_issued"
    by (rule handle_lines) (simp_all add: second_issued_state hello_chunk_facts hello_line_facts)
  then have h: "handleBridgeResponse utf8_short sample_parse (hello_line @ [LF]) second_issued
      = catch_block hello_line (route hello_message second_issued)"
    by (simp add: process_line_def try_block_def hello_line_facts)
  have "resolver_calls (catch_block hello_line (route hello_message second_issued))
          = [(InitResolver 0, initialized_message), (ExecResolver 2, hello_message)] \<and>
        reported (catch_block hello_line (route hello_message second_issued))
          = [(1, Chunk (ascii ''Hello''))]"
    by (simp add: second_issued_def cancelled_def catch_block_def scenario_defs sanitizer_eval)
  with h second_issued_state(2,3) show ?thesis by (simp only:) 
qed

section \<open>Examples for the codec\<close>

theorem malformed_line_skipped_witness:
  "sample_parse (ascii ''not json'') = None \<and>
   decoded_messages (console (handleBridgeResponse utf8_short sample_parse
       (hello_line @ [LF] @ ascii ''not json'' @ [LF] @ hello_line @ [LF]) new_provider))
     = [hello_message, hello_message]"
proof -
  have bad: "sample_parse (ascii ''not json'') = None"
    by (simp add: sample_parse_def hello_line_def line_start_def line_end_def ascii_def)
  have new: "responseBuffer new_provider = []" "console new_provider = []"
    by (simp_all add: new_provider_def)
  have "\<forall>b\<in>set (hello_line @ [LF] @ ascii ''not json'' @ [LF] @ hello_line @ [LF]). b < 128"
    by (simp add: hello_line_def ascii_def LF_def)
  then have data: "utf8_short (hello_line @ [LF] @ ascii ''not json'' @ [LF] @ hello_line @ [LF])
      = concat (map (\<lambda>l. l @ [LF]) ([hello_line] @ [ascii ''not json''] @ [hello_line]))"
    by (simp add: utf8_short_ascii)
  have free: "\<forall>l\<in>set ([hello_line] @ [ascii ''not json''] @ [hello_line]). LF \<notin> set l"
    using hello_line_facts(1) by (simp add: ascii_def LF_def)
  have valid: "\<forall>l\<in>set ([hello_line] @ [hello_line]). trim l \<noteq> [] \<and> sample_parse l \<noteq> None"
    by (simp add: hello_line_facts)
  from malformed_line_skipped [of new_provider utf8_short
      "hello_line @ [LF] @ ascii ''not json'' @ [LF] @ hello_line @ [LF]"
      "[hello_line]" "ascii ''not json''" "[hello_line]" sample_parse, OF new(1) data free bad valid]
  show ?thesis
    using bad by (simp add: new hello_line_facts)
qed

theorem buffer_never_holds_newline_witness:
  "LF \<notin> set (responseBuffer (handleBridgeResponse utf8_short sample_parse (hello_line @ [LF, 123]) new_provider))"
  using buffer_never_holds_newline [of utf8_short sample_parse "hello_line @ [LF, 123]" new_provider]
  by simp

lemma handle_partial:
  assumes "LF \<notin> set (responseBuffer s @ D data)"
  shows "handleBridgeResponse D P data s = s\<lparr>responseBuffer := responseBuffer s @ D data\<rparr>"
  using assms by (simp add: handleBridgeResponse_def Let_def split_nl_free)

lemma handle_completes:
  assumes "D data = rest @ [LF]" and "LF \<notin> set (responseBuffer s @ rest)"
  shows "handleBridgeResponse D P data s
           = (process_line P (responseBuffer s @ rest) s)\<lparr>responseBuffer := []\<rparr>"
proof -
  have "split_nl (responseBuffer s @ D data) = [responseBuffer s @ rest, []]"
    using split_nl_line [of "responseBuffer s @ rest" "[]"] assms by simp
  then show ?thesis
    by (simp add: handleBridgeResponse_def Let_def process_line_buffer)
qed

lemma response_on_exec_issued:
  assumes "trim l \<noteq> []" and "P l = Some (response_message t)"
    and "cleanAmplifierOutput t = t" and "trim t \<noteq> []"
  shows "reported (process_line P l exec_issued) = [(0, Chunk t)]"
    and "decoded_messages (console (process_line P l exec_issued))
           = [initialized_message, response_message t]"
  using assms
  by (simp_all add: process_line_def try_block_def catch_block_def response_message_def
      scenario_defs)

lemma line_facts:
  "trim (line_start @ [233] @ line_end) \<noteq> []"
  "trim (line_start @ [65533, 65533] @ line_end) \<noteq> []"
  "LF \<notin> set (line_start @ [233] @ line_end)"
  "LF \<notin> set (line_start @ [65533, 65533] @ line_end)"
  "LF \<notin> set (line_start @ [65533])"
  by (simp_all add: line_start_def line_end_def trim_def is_space_def ascii_def LF_def)

lemma content_facts:
  "cleanAmplifierOutput [233] = [233]" "trim [233] \<noteq> []"
  "cleanAmplifierOutput [65533, 65533] = [65533, 65533]" "trim [65533, 65533] \<noteq> []"
  by (simp_all add: sanitizer_eval)

text \<open>
  Claim C4 at its failing input. A line \<open>{"type":"response","content":"..."}\<close> whose content
  is the one letter U+00E9 is sent as UTF-8 bytes, and the two bytes 195 169 of the letter
  fall into different chunks. The
  hypotheses give the values of \<open>Buffer.prototype.toString\<close> and \<open>JSON.parse\<close> at the
  texts that occur. Fed as one chunk the line decodes to the content U+00E9; fed as two
  chunks it decodes to the content U+FFFD U+FFFD, and that is what the caller is given.
\<close>

theorem split_character_changes_message:
  assumes D1: "D (line_start @ [195]) = line_start @ [65533]"
    and D2: "D ([169] @ line_end @ [10]) = [65533] @ line_end @ [LF]"
    and D12: "D (line_start @ [195] @ [169] @ line_end @ [10]) = line_start @ [233] @ line_end @ [LF]"
    and P1: "P (line_start @ [233] @ line_end) = Some (response_message [233])"
    and P2: "P (line_start @ [65533, 65533] @ line_end) = Some (response_message [65533, 65533])"
  shows "reported (handleBridgeResponse D P (line_start @ [195] @ [169] @ line_end @ [10]) exec_issued)
           = [(0, Chunk [233])] \<and>
         reported (fold (handleBridgeResponse D P) [line_start @ [195], [169] @ line_end @ [10]] exec_issued)
           = [(0, Chunk [65533, 65533])] \<and>
         decoded_messages (console
             (handleBridgeResponse D P (line_start @ [195] @ [169] @ line_end @ [10]) exec_issued))
           = [initialized_message, response_message [233]] \<and>
         decoded_messages (console
             (fold (handleBridgeResponse D P) [line_start @ [195], [169] @ line_end @ [10]] exec_issued))
           = [initialized_message, response_message [65533, 65533]]"
proof -
  let ?L = "line_start @ [233] @ line_end"
  let ?L' = "line_start @ [65533, 65533] @ line_end"
  have rb: "responseBuffer exec_issued = []" by (rule exec_issued_facts)
  have whole: "handleBridgeResponse D P (line_start @ [195] @ [169] @ line_end @ [10]) exec_issued
                 = process_line P ?L exec_issued"
    using handle_lines [of exec_issued D "line_start @ [195] @ [169] @ line_end @ [10]" "[?L]" P]
      rb D12 line_facts(3) by simp
  have first: "handleBridgeResponse D P (line_start @ [195]) exec_issued
                 = exec_issued\<lparr>responseBuffer := line_start @ [65533]\<rparr>"
    using handle_partial [of exec_issued D "line_start @ [195]" P] rb D1 line_facts(5) by simp
  have second: "handleBridgeResponse D P ([169] @ line_end @ [10])
                    (exec_issued\<lparr>responseBuffer := line_start @ [65533]\<rparr>)
                  = (process_line P ?L' exec_issued)\<lparr>responseBuffer := []\<rparr>"
    using handle_completes [of D "[169] @ line_end @ [10]" "[65533] @ line_end"
        "exec_issued\<lparr>responseBuffer := line_start @ [65533]\<rparr>" P] D2 line_facts(4)
    by (simp add: process_line_buffer)
  have split: "fold (handleBridgeResponse D P) [line_start @ [195], [169] @ line_end @ [10]] exec_issued
                 = (process_line P ?L' exec_issued)\<lparr>responseBuffer := []\<rparr>"
    by (simp only: fold_simps first second)
  note a = response_on_exec_issued [of ?L P "[233]", OF line_facts(1) P1 content_facts(1,2)]
  note b = response_on_exec_issued [of ?L' P "[65533, 65533]", OF line_facts(2) P2 content_facts(3,4)]
  show ?thesis unfolding whole split using a b by simp
qed

lemma sample_facts:
  "utf8_short (line_start @ [195]) = line_start @ [65533]"
  "utf8_short ([169] @ line_end @ [10]) = [65533] @ line_end @ [LF]"
  "utf8_short (line_start @ [195] @ [169] @ line_end @ [10]) = line_start @ [233] @ line_end @ [LF]"
  "sample_parse (line_start @ [233] @ line_end) = Some (response_message [233])"
  "sample_parse (line_start @ [65533, 65533] @ line_end) = Some (response_message [65533, 65533])"
  by (simp_all add: line_start_def line_end_def sample_parse_def hello_line_def ascii_def LF_def)

theorem split_character_changes_message_witness:
  "utf8_short (line_start @ [195] @ [169] @ line_end @ [10]) = line_start @ [233] @ line_end @ [LF] \<and>
   reported (handleBridgeResponse utf8_short sample_parse
       (line_start @ [195] @ [169] @ line_end @ [10]) exec_issued) = [(0, Chunk [233])] \<and>
   reported (fold (handleBridgeResponse utf8_short sample_parse)
       [line_start @ [195], [169] @ line_end @ [10]] exec_issued) = [(0, Chunk [65533, 65533])]"
  using split_character_changes_message [of utf8_short sample_parse, OF sample_facts] sample_facts(3)
  by (simp only:)


section \<open>The prompt of a chat request\<close>

lemma text_parts_text [simp]: "text_parts (map LanguageModelTextPart xs) = xs"
  by (induction xs) (simp_all add: text_parts_def)

lemma extractUserPrompt_last [simp]:
  "extractUserPrompt (earlier @ [m]) = join_nl (text_parts m)"
  by (simp add: extractUserPrompt_def messageToString_def)

lemma chat_response_prompt:
  "provideLanguageModelChatResponse folders (earlier @ [m]) prog proc s
     = provideLanguageModelChatResponse folders [map LanguageModelTextPart (text_parts m)] prog proc s"
proof -
  have h: "extractUserPrompt [map LanguageModelTextPart (text_parts m)] = join_nl (text_parts m)"
    using extractUserPrompt_last [of "[]" "map LanguageModelTextPart (text_parts m)"] by simp
  show ?thesis unfolding provideLanguageModelChatResponse_def h extractUserPrompt_last by (rule refl)
qed

lemma chat_response_writes:
  assumes "provideLanguageModelChatResponse folders (earlier @ [m]) prog proc s = (fr, s1)"
  shows "stdin_written s1 = stdin_written s \<or>
         stdin_written s1 = stdin_written s @ [InitializeCommand] \<or>
         stdin_written s1 = stdin_written s @ [ExecuteCommand (join_nl (text_parts m))]"
  using assms
  by (auto simp: provideLanguageModelChatResponse_def Let_def report_to_def ensureBridgeProcess_def initializeBridge_def
      executeOnBridge_def set_current_def write_stdin_def primitive_defs
      split: option.splits if_splits)

lemma chat_response_frame:
  assumes "provideLanguageModelChatResponse folders (earlier @ [m]) prog proc s = (fr, s1)"
  shows "fr = Returned \<or> (\<exists>c. fr = AwaitingInitialize c (join_nl (text_parts m))) \<or>
         (\<exists>c. fr = AwaitingExecute c)"
  using assms
  by (auto simp: provideLanguageModelChatResponse_def Let_def split: option.splits if_splits prod.splits)

lemma resumed_chat_writes:
  assumes "fr = Returned \<or> (\<exists>c. fr = AwaitingInitialize c p) \<or> (\<exists>c. fr = AwaitingExecute c)"
  shows "stdin_written (snd (resume_chat_response prog fr s2)) = stdin_written s2 \<or>
         stdin_written (snd (resume_chat_response prog fr s2)) = stdin_written s2 @ [ExecuteCommand p]"
  using assms
  by (auto simp: resume_chat_response_def Let_def report_to_def executeOnBridge_def set_current_def
      write_stdin_def primitive_defs split: option.splits outcome.splits if_splits)

lemma chat_response_no_text:
  assumes "provideLanguageModelChatResponse folders (earlier @ [m]) prog proc s = (fr, s1)" and "text_parts m = []"
  shows "fr = Returned \<and> stdin_written s1 = stdin_written s \<and> calls s1 = calls s"
  using assms
  by (auto simp: provideLanguageModelChatResponse_def Let_def report_to_def split: option.splits if_splits)

lemma chat_response_sends:
  assumes "provideLanguageModelChatResponse folders (earlier @ [m]) prog proc s = (fr, s1)"
    and "getWorkspaceRoot folders = Some root" and "root \<noteq> []"
    and "join_nl (text_parts m) \<noteq> []" and "isInitialized s" and "stdin_ready s"
  shows "stdin_written s1 = stdin_written s @ [ExecuteCommand (join_nl (text_parts m))]"
  using assms
  by (auto simp: provideLanguageModelChatResponse_def Let_def ensureBridgeProcess_def executeOnBridge_def
      set_current_def write_stdin_def stdin_ready_def split: option.splits if_splits)

text \<open>
  Claim C10. For a history that ends with the message \<open>m\<close>: the prompt is the text parts
  of \<open>m\<close> joined by line feeds; the request behaves as if the history were that text
  alone (earlier messages and other parts do not matter); the request writes at most one
  command before its first \<open>await\<close>, the initialize command or the execute command with
  that prompt, and after it nothing but that execute command; when \<open>m\<close> has no text part
  the request returns at once and writes nothing; and on an initialized bridge with a
  workspace folder and a prompt that is not empty the execute command is written.
\<close>

theorem prompt_is_text_of_last_message:
  assumes "provideLanguageModelChatResponse folders (earlier @ [m]) prog proc s = (fr, s1)"
  shows "extractUserPrompt (earlier @ [m]) = join_nl (text_parts m) \<and>
         provideLanguageModelChatResponse folders (earlier @ [m]) prog proc s
           = provideLanguageModelChatResponse folders [map LanguageModelTextPart (text_parts m)] prog proc s \<and>
         (stdin_written s1 = stdin_written s \<or>
          stdin_written s1 = stdin_written s @ [InitializeCommand] \<or>
          stdin_written s1 = stdin_written s @ [ExecuteCommand (join_nl (text_parts m))]) \<and>
         (stdin_written (snd (resume_chat_response prog fr s2)) = stdin_written s2 \<or>
          stdin_written (snd (resume_chat_response prog fr s2))
            = stdin_written s2 @ [ExecuteCommand (join_nl (text_parts m))]) \<and>
         (text_parts m = [] \<longrightarrow> fr = Returned \<and> stdin_written s1 = stdin_written s) \<and>
         (getWorkspaceRoot folders \<noteq> None \<and> getWorkspaceRoot folders \<noteq> Some [] \<and>
          join_nl (text_parts m) \<noteq> [] \<and> isInitialized s \<and> stdin_ready s \<longrightarrow>
            stdin_written s1 = stdin_written s @ [ExecuteCommand (join_nl (text_parts m))])"
proof -
  have a: "provideLanguageModelChatResponse folders (earlier @ [m]) prog proc s
           = provideLanguageModelChatResponse folders [map LanguageModelTextPart (text_parts m)] prog proc s"
    by (rule chat_response_prompt)
  note b = chat_response_writes [OF assms]
  note c = resumed_chat_writes [OF chat_response_frame [OF assms], of prog s2]
  have d: "text_parts m = [] \<longrightarrow> fr = Returned \<and> stdin_written s1 = stdin_written s"
    using chat_response_no_text [OF assms] by simp
  have e: "stdin_written s1 = stdin_written s @ [ExecuteCommand (join_nl (text_parts m))]"
    if "getWorkspaceRoot folders \<noteq> None" "getWorkspaceRoot folders \<noteq> Some []"
      "join_nl (text_parts m) \<noteq> []" "isInitialized s" "stdin_ready s"
  proof -
    from that(1,2) obtain root where "getWorkspaceRoot folders = Some root" "root \<noteq> []" by auto
    then show ?thesis using chat_response_sends [OF assms] that by simp
  qed
  from a b c d e show ?thesis by (simp only: extractUserPrompt_last) blast
qed

lemma after_init_more:
  "isInitialized after_init" "stdin_written after_init = [InitializeCommand]"
  by (simp_all add: scenario_defs)

theorem prompt_is_text_of_last_message_witness:
  "stdin_written (snd (provideLanguageModelChatResponse [ascii ''/ws'']
       ([[LanguageModelTextPart (ascii ''old'')]] @
        [[LanguageModelTextPart (ascii ''a''), OtherPart 7, LanguageModelTextPart (ascii ''b'')]])
       0 (ChildProcess True) after_init))
     = [InitializeCommand, ExecuteCommand (ascii ''a'' @ [LF] @ ascii ''b'')] \<and>
   fst (provideLanguageModelChatResponse [ascii ''/ws''] ([] @ [[OtherPart 7]]) 0 (ChildProcess True) after_init) = Returned \<and>
   stdin_written (snd (provideLanguageModelChatResponse [ascii ''/ws''] ([] @ [[OtherPart 7]]) 0 (ChildProcess True) after_init))
     = [InitializeCommand]"
proof -
  let ?m = "[LanguageModelTextPart (ascii ''a''), OtherPart 7, LanguageModelTextPart (ascii ''b'')]"
  let ?r = "provideLanguageModelChatResponse [ascii ''/ws''] ([[LanguageModelTextPart (ascii ''old'')]] @ [?m])
              0 (ChildProcess True) after_init"
  let ?q = "provideLanguageModelChatResponse [ascii ''/ws''] ([] @ [[OtherPart 7]]) 0 (ChildProcess True) after_init"
  have r: "?r = (fst ?r, snd ?r)" and q: "?q = (fst ?q, snd ?q)" by simp_all
  have parts: "text_parts ?m = [ascii ''a'', ascii ''b'']" "text_parts [OtherPart 7] = []"
    by (simp_all add: text_parts_def)
  have ws: "getWorkspaceRoot [ascii ''/ws''] \<noteq> None" "getWorkspaceRoot [ascii ''/ws''] \<noteq> Some []"
    "join_nl [ascii ''a'', ascii ''b''] \<noteq> []" "join_nl [ascii ''a'', ascii ''b''] = ascii ''a'' @ [LF] @ ascii ''b''"
    by (simp_all add: getWorkspaceRoot_def ascii_def)
  have sends: "getWorkspaceRoot [ascii ''/ws''] \<noteq> None \<and> getWorkspaceRoot [ascii ''/ws''] \<noteq> Some [] \<and>
      join_nl (text_parts ?m) \<noteq> [] \<and> isInitialized after_init \<and> stdin_ready after_init \<longrightarrow>
      stdin_written (snd ?r) = stdin_written after_init @ [ExecuteCommand (join_nl (text_parts ?m))]"
    using prompt_is_text_of_last_message [OF r, of after_init] by (elim conjE) assumption
  have none: "text_parts [OtherPart 7] = [] \<longrightarrow>
      fst ?q = Returned \<and> stdin_written (snd ?q) = stdin_written after_init"
    using prompt_is_text_of_last_message [OF q, of after_init] by (elim conjE) assumption
  have a: "stdin_written (snd ?r) = [InitializeCommand, ExecuteCommand (ascii ''a'' @ [LF] @ ascii ''b'')]"
    using sends ws after_init_more after_init_facts(1) by (simp only: parts) simp
  have b: "fst ?q = Returned \<and> stdin_written (snd ?q) = [InitializeCommand]"
    using none parts(2) after_init_more(2) by (simp only:) 
  from a b show ?thesis by (simp only:) 
qed

end
